theory Spec2Isabelle
  imports Main "HOL-Library.Multiset"
begin

section \<open>Strings\<close>

text \<open>
  A Python \<open>str\<close> is modelled as a \<open>string\<close> holding its UTF-8 encoding. Every
  character the program inspects by itself (\<open>/\<close>, \<open>.\<close>, \<open>g\<close>, \<open>i\<close>, \<open>t\<close>, the
  newline) is ASCII, and an ASCII byte never occurs inside the encoding of another code
  point, so matching and stripping byte by byte agree with Python's work on code points.
  Nothing in the program takes the length of a string.
\<close>

text \<open>\<open>s.rstrip(chars)\<close>: drops from the right end every character that occurs in
  \<open>chars\<close>; the argument is a set of characters, not a suffix.\<close>

definition rstrip :: "string \<Rightarrow> string \<Rightarrow> string" where
  "rstrip s chars = rev (dropWhile (\<lambda>c. c \<in> set chars) (rev s))"

text \<open>\<open>sub in s\<close> on strings.\<close>

fun contains :: "string \<Rightarrow> string \<Rightarrow> bool" where
  "contains sub [] = (sub = [])"
| "contains sub (c # cs) = (take (length sub) (c # cs) = sub \<or> contains sub cs)"

section \<open>The regular expressions of \<open>extract_repo_info\<close>\<close>

text \<open>
  The fragment of Python's \<open>re\<close> syntax that the two patterns use: a literal character,
  a negated one-character class \<open>[^c]\<close>, concatenation, greedy \<open>+\<close>, lazy \<open>+?\<close>,
  greedy \<open>?\<close>, a numbered capturing group and \<open>$\<close>.
\<close>

datatype regex =
    Eps
  | Chr char
  | NotChr char
  | Cat regex regex
  | Plus regex
  | PlusLazy regex
  | Opt regex
  | Group nat regex
  | Dollar

type_synonym groups = "nat \<rightharpoonup> string"

text \<open>
  \<open>rmatch p s g\<close> lists every way \<open>p\<close> can match a prefix of \<open>s\<close>, as the rest of
  the subject and the groups captured, in the order in which a backtracking matcher
  tries them: a greedy operator lists the longer match first, a lazy one the shorter.
  Without \<open>re.MULTILINE\<close>, \<open>$\<close> matches at the end of the subject and just before a
  newline that ends it.
\<close>

fun rmatch :: "regex \<Rightarrow> string \<Rightarrow> groups \<Rightarrow> (string \<times> groups) list" where
  "rmatch Eps s g = [(s, g)]"
| "rmatch (Chr a) s g = (case s of [] \<Rightarrow> [] | x # t \<Rightarrow> if x = a then [(t, g)] else [])"
| "rmatch (NotChr a) s g = (case s of [] \<Rightarrow> [] | x # t \<Rightarrow> if x \<noteq> a then [(t, g)] else [])"
| "rmatch (Cat p q) s g = concat (map (\<lambda>(s', g'). rmatch q s' g') (rmatch p s g))"
| "rmatch (Plus p) s g =
     concat (map (\<lambda>(s', g').
        (if length s' < length s then rmatch (Plus p) s' g' else []) @ [(s', g')])
        (rmatch p s g))"
| "rmatch (PlusLazy p) s g =
     concat (map (\<lambda>(s', g').
        (s', g') # (if length s' < length s then rmatch (PlusLazy p) s' g' else []))
        (rmatch p s g))"
| "rmatch (Opt p) s g = rmatch p s g @ [(s, g)]"
| "rmatch (Group n p) s g =
     map (\<lambda>(s', g'). (s', g'(n \<mapsto> take (length s - length s') s))) (rmatch p s g)"
| "rmatch Dollar s g = (if s = [] \<or> s = [CHR 0x0A] then [(s, g)] else [])"

text \<open>\<open>re.search\<close>: the first match at the leftmost position that has one.\<close>

fun re_search :: "regex \<Rightarrow> string \<Rightarrow> groups option" where
  "re_search p s =
     (case rmatch p s Map.empty of
        (r, g) # ms \<Rightarrow> Some g
      | [] \<Rightarrow> (case s of [] \<Rightarrow> None | c # t \<Rightarrow> re_search p t))"

definition lit :: "string \<Rightarrow> regex" where
  "lit s = foldr (\<lambda>c p. Cat (Chr c) p) s Eps"

definition seq :: "regex list \<Rightarrow> regex" where
  "seq ps = foldr Cat ps Eps"

text \<open>\<^verbatim>\<open>github\.com/([^/]+)/([^/]+?)(?:\.git)?/?$\<close>\<close>

definition pattern1 :: regex where
  "pattern1 = seq [lit ''github.com/'', Group 1 (Plus (NotChr CHR ''/'')), Chr CHR ''/'',
     Group 2 (PlusLazy (NotChr CHR ''/'')), Opt (lit ''.git''), Opt (Chr CHR ''/''), Dollar]"

text \<open>\<^verbatim>\<open>github\.com/([^/]+)/([^/]+)\<close>\<close>

definition pattern2 :: regex where
  "pattern2 = seq [lit ''github.com/'', Group 1 (Plus (NotChr CHR ''/'')), Chr CHR ''/'',
     Group 2 (Plus (NotChr CHR ''/''))]"

definition patterns :: "regex list" where
  "patterns = [pattern1, pattern2]"

section \<open>\<open>GitHubRepoChecker.extract_repo_info\<close>\<close>

text \<open>
  The loop over the patterns returns at the first pattern that matches. Both groups take
  part in every match of both patterns, so \<open>match.groups()\<close> holds two strings; the
  second has \<open>rstrip('.git')\<close> applied. \<open>(None, None)\<close> is the pair of two \<open>None\<close>.
\<close>

fun extract_loop :: "regex list \<Rightarrow> string \<Rightarrow> string option \<times> string option" where
  "extract_loop [] u = (None, None)"
| "extract_loop (pattern # rest) u =
     (case re_search pattern u of
        Some m \<Rightarrow> (m 1, map_option (\<lambda>repo. rstrip repo ''.git'') (m 2))
      | None \<Rightarrow> extract_loop rest u)"

definition extract_repo_info :: "string \<Rightarrow> string option \<times> string option" where
  "extract_repo_info u = extract_loop patterns u"

section \<open>Values and exceptions\<close>

text \<open>
  What \<open>response.json()\<close> can return. A JSON object is the list of its items, each key
  once, as the decoded \<open>dict\<close> holds them; a number is kept as Python's \<open>int\<close>.
\<close>

datatype json =
    JNull
  | JBool bool
  | JNum int
  | JStr string
  | JArr "json list"
  | JObj "(string \<times> json) list"

text \<open>
  The exceptions that reach the program. \<open>RequestException\<close> stands for
  \<open>requests.exceptions.RequestException\<close> and its subclasses and carries \<open>str(e)\<close>;
  \<open>SystemExit\<close> is what \<open>sys.exit\<close> raises, and it ends the process with its
  argument as the exit code. \<open>FileNotFoundError\<close>, \<open>PermissionError\<close> and
  \<open>IsADirectoryError\<close> are the subclasses of \<open>OSError\<close> that \<open>open\<close> raises most
  often; \<open>OSError\<close> stands for the others. \<open>ValueError\<close> is also what the constructor
  of \<open>ThreadPoolExecutor\<close> raises.
\<close>

datatype exn =
    RequestException string
  | AttributeError string
  | ValueError string
  | FileNotFoundError string
  | PermissionError string
  | IsADirectoryError string
  | OSError string
  | SystemExit int

text \<open>\<open>dict.get(key, default)\<close>\<close>

definition dict_get :: "('k \<times> 'v) list \<Rightarrow> 'k \<Rightarrow> 'v \<Rightarrow> 'v" where
  "dict_get d k dflt = (case map_of d k of None \<Rightarrow> dflt | Some v \<Rightarrow> v)"

text \<open>\<open>d[k] = v\<close>: a key already present keeps its place, a new key goes last.\<close>

fun dict_set :: "('k \<times> 'v) list \<Rightarrow> 'k \<Rightarrow> 'v \<Rightarrow> ('k \<times> 'v) list" where
  "dict_set [] k v = [(k, v)]"
| "dict_set ((k', v') # d) k v = (if k' = k then (k, v) # d else (k', v') # dict_set d k v)"

text \<open>The name Python prints for the type of a decoded value.\<close>

fun type_name :: "json \<Rightarrow> string" where
  "type_name JNull = ''NoneType''"
| "type_name (JBool b) = ''bool''"
| "type_name (JNum n) = ''int''"
| "type_name (JStr s) = ''str''"
| "type_name (JArr xs) = ''list''"
| "type_name (JObj d) = ''dict''"

text \<open>\<open>repo_data.get(key, default)\<close> on whatever \<open>response.json()\<close> returned: only a
  \<open>dict\<close> has the method.\<close>

fun json_get :: "json \<Rightarrow> string \<Rightarrow> json \<Rightarrow> exn + json" where
  "json_get (JObj d) k dflt = Inr (dict_get d k dflt)"
| "json_get v k dflt =
     Inl (AttributeError ([CHR 0x27] @ type_name v @ [CHR 0x27] @ '' object has no attribute '' @
       [CHR 0x27] @ ''get'' @ [CHR 0x27]))"

text \<open>\<open>str(n)\<close> for an \<open>int\<close>.\<close>

fun str_nat :: "nat \<Rightarrow> string" where
  "str_nat n =
     (if n < 10 then [''0123456789'' ! n]
      else str_nat (n div 10) @ [''0123456789'' ! (n mod 10)])"

declare str_nat.simps [simp del]

definition str_int :: "int \<Rightarrow> string" where
  "str_int i = (if i < 0 then CHR ''-'' # str_nat (nat (- i)) else str_nat (nat i))"

section \<open>The HTTP session\<close>

record session =
  headers :: "(string \<times> string) list"

record GitHubRepoChecker =
  session :: session
  max_workers :: int

text \<open>\<open>__init__(self, token=None, max_workers=10)\<close>. The headers a new
  \<open>requests.Session\<close> starts with are not the program's and are left out; a token that is
  \<open>None\<close> or empty adds nothing.\<close>

definition init :: "string option \<Rightarrow> int \<Rightarrow> GitHubRepoChecker" where
  "init token workers =
     \<lparr>session = \<lparr>headers =
          (case token of
             None \<Rightarrow> []
           | Some t \<Rightarrow> if t = [] then [] else dict_set [] ''Authorization'' (''token '' @ t))\<rparr>,
      max_workers = workers\<rparr>"

text \<open>One outbound call \<open>session.get(url, timeout=...)\<close>.\<close>

record request =
  req_url :: string
  req_headers :: "(string \<times> string) list"
  req_timeout :: nat

text \<open>What the program reads of a response: \<open>status_code\<close> and the outcome of
  calling \<open>json()\<close>, which returns the decoded body or raises.\<close>

record response =
  status_code :: int
  json :: "exn + json"

text \<open>The network: each call returns a response or raises.\<close>

type_synonym transport = "request \<Rightarrow> exn + response"

section \<open>\<open>GitHubRepoChecker.check_repo\<close>\<close>

text \<open>The result dictionary; the last three keys are present only for \<open>EXISTS\<close>.\<close>

record probe_result =
  url :: string
  status :: string
  message :: string
  private' :: "json option"
  archived :: "json option"
  stars :: "json option"

text \<open>\<open>not x\<close> for a value that is \<open>None\<close> or a string.\<close>

fun falsy :: "string option \<Rightarrow> bool" where
  "falsy None = True"
| "falsy (Some s) = (s = [])"

text \<open>The three marks of the messages, U+2713, U+2717 and U+26A0.\<close>

definition check_mark :: string where
  "check_mark = [CHR 0xE2, CHR 0x9C, CHR 0x93]"

definition ballot_x :: string where
  "ballot_x = [CHR 0xE2, CHR 0x9C, CHR 0x97]"

definition warning_sign :: string where
  "warning_sign = [CHR 0xE2, CHR 0x9A, CHR 0xA0]"

definition api_request :: "GitHubRepoChecker \<Rightarrow> string \<Rightarrow> string \<Rightarrow> request" where
  "api_request self owner repo =
     \<lparr>req_url = ''https://api.github.com/repos/'' @ owner @ ''/'' @ repo,
      req_headers = headers (session self),
      req_timeout = 10\<rparr>"

text \<open>The \<open>except requests.exceptions.RequestException as e\<close> clause: it turns a
  \<open>RequestException\<close> raised anywhere in the \<open>try\<close> block into an \<open>ERROR\<close> result; any
  other exception leaves \<open>check_repo\<close>.\<close>

fun except_clause :: "string \<Rightarrow> string \<Rightarrow> string \<Rightarrow> exn \<Rightarrow> exn + probe_result" where
  "except_clause u owner repo (RequestException e) =
     Inr \<lparr>url = u, status = ''ERROR'',
          message = ballot_x @ '' '' @ owner @ ''/'' @ repo @ '' - Network error: '' @ e,
          private' = None, archived = None, stars = None\<rparr>"
| "except_clause u owner repo e = Inl e"

text \<open>The body of the \<open>try\<close> block once \<open>session.get\<close> has returned.\<close>

definition classify :: "string \<Rightarrow> string \<Rightarrow> string \<Rightarrow> response \<Rightarrow> exn + probe_result" where
  "classify u owner repo resp =
     (if status_code resp = 200 then
        (case json resp of
           Inl e \<Rightarrow> Inl e
         | Inr repo_data \<Rightarrow>
            (case json_get repo_data ''private'' (JBool False) of
               Inl e \<Rightarrow> Inl e
             | Inr p \<Rightarrow>
                (case json_get repo_data ''archived'' (JBool False) of
                   Inl e \<Rightarrow> Inl e
                 | Inr a \<Rightarrow>
                    (case json_get repo_data ''stargazers_count'' (JNum 0) of
                       Inl e \<Rightarrow> Inl e
                     | Inr n \<Rightarrow>
                        Inr \<lparr>url = u, status = ''EXISTS'',
                             message = check_mark @ '' '' @ owner @ ''/'' @ repo,
                             private' = Some p, archived = Some a, stars = Some n\<rparr>))))
      else if status_code resp = 404 then
        Inr \<lparr>url = u, status = ''NOT_FOUND'',
             message = ballot_x @ '' '' @ owner @ ''/'' @ repo @ '' - Repository not found'',
             private' = None, archived = None, stars = None\<rparr>
      else if status_code resp = 403 then
        Inr \<lparr>url = u, status = ''FORBIDDEN'',
             message = warning_sign @ '' '' @ owner @ ''/'' @ repo @
               '' - Access denied (private or rate limited)'',
             private' = None, archived = None, stars = None\<rparr>
      else
        Inr \<lparr>url = u, status = ''ERROR'',
             message = ''? '' @ owner @ ''/'' @ repo @ '' - HTTP '' @ str_int (status_code resp),
             private' = None, archived = None, stars = None\<rparr>)"

text \<open>
  \<open>check_repo\<close> returns its result, or the exception that leaves it, together with the
  list of the network calls it made. \<open>probe\<close> is the part after the early return: the
  \<open>try\<close> statement.
\<close>

definition probe ::
  "GitHubRepoChecker \<Rightarrow> transport \<Rightarrow> string \<Rightarrow> string \<Rightarrow> string \<Rightarrow>
     (exn + probe_result) \<times> request list" where
  "probe self net u owner repo =
     (let rq = api_request self owner repo in
      (case net rq of
         Inl e \<Rightarrow> except_clause u owner repo e
       | Inr resp \<Rightarrow>
          (case classify u owner repo resp of
             Inl e \<Rightarrow> except_clause u owner repo e
           | Inr r \<Rightarrow> Inr r),
       [rq]))"

definition check_repo ::
  "GitHubRepoChecker \<Rightarrow> transport \<Rightarrow> string \<Rightarrow> (exn + probe_result) \<times> request list" where
  "check_repo self net u =
     (case extract_repo_info u of
        (owner, repo) \<Rightarrow>
          if falsy owner \<or> falsy repo then
            (Inr \<lparr>url = u, status = ''INVALID_URL'', message = ''Could not parse GitHub URL'',
                  private' = None, archived = None, stars = None\<rparr>, [])
          else probe self net u (the owner) (the repo))"

section \<open>\<open>GitHubRepoChecker.check_repos_batch\<close>\<close>

text \<open>
  \<open>ThreadPoolExecutor(max_workers=self.max_workers)\<close> raises \<open>ValueError\<close> when
  \<open>max_workers\<close> is not positive; nothing has been submitted then.
  \<open>executor.submit\<close> creates one future per element of \<open>urls\<close> (the futures are
  distinct objects, also for equal URLs), and leaving the \<open>with\<close> block waits for all of
  them. Future \<open>i\<close> holds what \<open>check_repo\<close> returned or raised for \<open>urls ! i\<close>; the
  network as seen by that call is \<open>net i\<close>.
\<close>

definition submit_all ::
  "GitHubRepoChecker \<Rightarrow> (nat \<Rightarrow> transport) \<Rightarrow> string list \<Rightarrow> (exn + probe_result) list" where
  "submit_all self net urls =
     map (\<lambda>i. fst (check_repo self (net i) (urls ! i))) [0..<length urls]"

text \<open>
  \<open>as_completed\<close> yields every future once, in the order in which the futures finish.
  That order is an input of the model: \<open>order\<close> lists the indices of the futures as they
  finish, a permutation of \<open>[0..<length urls]\<close>. With fewer workers than URLs not every
  permutation can occur; the properties below hold for all of them.
\<close>

definition completion_order :: "nat list \<Rightarrow> nat \<Rightarrow> bool" where
  "completion_order order k = (distinct order \<and> set order = {0..<k})"

definition as_completed :: "nat list \<Rightarrow> 'a list \<Rightarrow> 'a list" where
  "as_completed order futures = map (\<lambda>i. futures ! i) order"

text \<open>
  The loop \<open>for i, future in enumerate(as_completed(future_to_url))\<close>.
  \<open>future.result()\<close> returns the result or raises again what the call raised, which
  ends the loop and the batch. The callback is a function on the state it acts on (for
  \<open>progress_callback\<close>, the standard output); \<open>time.sleep\<close> changes nothing here.
\<close>

type_synonym 's callback = "nat \<Rightarrow> nat \<Rightarrow> probe_result \<Rightarrow> 's \<Rightarrow> 's"

fun reap ::
  "nat \<Rightarrow> 's callback option \<Rightarrow> (exn + probe_result) list \<Rightarrow> nat \<Rightarrow> probe_result list \<Rightarrow> 's \<Rightarrow>
     (exn + probe_result list) \<times> 's" where
  "reap ntotal cb [] i results st = (Inr results, st)"
| "reap ntotal cb (future # futures) i results st =
     (case future of
        Inl e \<Rightarrow> (Inl e, st)
      | Inr result \<Rightarrow>
          reap ntotal cb futures (i + 1) (results @ [result])
            (case cb of None \<Rightarrow> st | Some progress \<Rightarrow> progress (i + 1) ntotal result st))"

definition check_repos_batch ::
  "GitHubRepoChecker \<Rightarrow> (nat \<Rightarrow> transport) \<Rightarrow> nat list \<Rightarrow> string list \<Rightarrow> 's callback option \<Rightarrow> 's \<Rightarrow>
     (exn + probe_result list) \<times> 's" where
  "check_repos_batch self net order urls progress st =
     (if max_workers self \<le> 0 then
        (Inl (ValueError ''max_workers must be greater than 0''), st)
      else
        reap (length urls) progress (as_completed order (submit_all self net urls)) 0 [] st)"

section \<open>\<open>progress_callback\<close> and \<open>main\<close>\<close>

text \<open>The standard output is the list of the strings printed, one per \<open>print\<close>.\<close>

definition progress_callback :: "string list callback" where
  "progress_callback completed ntotal result out =
     out @ [''['' @ str_nat completed @ ''/'' @ str_nat ntotal @ ''] '' @ message result]"

text \<open>
  \<open>s.strip()\<close>: drops the white space at both ends. \<open>whitespace\<close> lists the code
  points for which \<open>str.isspace\<close> holds, in UTF-8.
\<close>

definition whitespace :: "string list" where
  "whitespace =
     [[CHR 0x09], [CHR 0x0A], [CHR 0x0B], [CHR 0x0C], [CHR 0x0D],
      [CHR 0x1C], [CHR 0x1D], [CHR 0x1E], [CHR 0x1F], [CHR 0x20],
      [CHR 0xC2, CHR 0x85], [CHR 0xC2, CHR 0xA0], [CHR 0xE1, CHR 0x9A, CHR 0x80],
      [CHR 0xE2, CHR 0x80, CHR 0x80], [CHR 0xE2, CHR 0x80, CHR 0x81],
      [CHR 0xE2, CHR 0x80, CHR 0x82], [CHR 0xE2, CHR 0x80, CHR 0x83],
      [CHR 0xE2, CHR 0x80, CHR 0x84], [CHR 0xE2, CHR 0x80, CHR 0x85],
      [CHR 0xE2, CHR 0x80, CHR 0x86], [CHR 0xE2, CHR 0x80, CHR 0x87],
      [CHR 0xE2, CHR 0x80, CHR 0x88], [CHR 0xE2, CHR 0x80, CHR 0x89],
      [CHR 0xE2, CHR 0x80, CHR 0x8A], [CHR 0xE2, CHR 0x80, CHR 0xA8],
      [CHR 0xE2, CHR 0x80, CHR 0xA9], [CHR 0xE2, CHR 0x80, CHR 0xAF],
      [CHR 0xE2, CHR 0x81, CHR 0x9F], [CHR 0xE3, CHR 0x80, CHR 0x80]]"

function strip_left :: "string list \<Rightarrow> string \<Rightarrow> string" where
  "strip_left ws s =
     (case List.find (\<lambda>w. w \<noteq> [] \<and> take (length w) s = w) ws of
        None \<Rightarrow> s
      | Some w \<Rightarrow> strip_left ws (drop (length w) s))"
  by pat_completeness auto
termination
proof (relation "measure (\<lambda>(ws, s). length s)")
  show "wf (measure (\<lambda>(ws :: string list, s :: string). length s))" by simp
next
  fix ws :: "string list" and s :: string and w :: string
  assume "List.find (\<lambda>w. w \<noteq> [] \<and> take (length w) s = w) ws = Some w"
  then have "w \<noteq> []" and "take (length w) s = w"
    by (auto simp: find_Some_iff)
  then have "s \<noteq> []" by auto
  with \<open>w \<noteq> []\<close> show "((ws, drop (length w) s), (ws, s)) \<in> measure (\<lambda>(ws, s). length s)"
    by simp
qed

declare strip_left.simps [simp del]

text \<open>The right end is the left end of the reversed string.\<close>

definition strip :: "string \<Rightarrow> string" where
  "strip s = rev (strip_left (map rev whitespace) (rev (strip_left whitespace s)))"

text \<open>
  The summary loop of \<open>main\<close> over the results: \<open>status_counts\<close> is a dictionary (its
  items keep the order in which the keys were first set), \<open>dead_links\<close> a list.
\<close>

fun summarize ::
  "probe_result list \<Rightarrow> (string \<times> nat) list \<Rightarrow> string list \<Rightarrow> (string \<times> nat) list \<times> string list" where
  "summarize [] status_counts dead_links = (status_counts, dead_links)"
| "summarize (result # results) status_counts dead_links =
     summarize results
       (dict_set status_counts (status result) (dict_get status_counts (status result) 0 + 1))
       (if status result \<in> set [''NOT_FOUND'', ''ERROR'']
        then dead_links @ [url result] else dead_links)"

text \<open>What the rest of \<open>main\<close> prints from the two.\<close>

definition print_summary :: "(string \<times> nat) list \<Rightarrow> string list \<Rightarrow> string list" where
  "print_summary status_counts dead_links =
     map (\<lambda>(st, count). st @ '': '' @ str_nat count) status_counts @
     (if dead_links \<noteq> [] then
        ([CHR 0x0A] @ ''Dead/Problematic Links ('' @ str_nat (length dead_links) @ ''):'') #
        map (\<lambda>u. ''  '' @ u) dead_links
      else [])"

text \<open>The list comprehension of \<open>main\<close> over the lines of the file.\<close>

definition read_urls :: "string list \<Rightarrow> string list" where
  "read_urls lines =
     map strip (filter (\<lambda>line. strip line \<noteq> [] \<and> contains ''github.com'' line) lines)"

text \<open>
  \<open>main\<close> with its surroundings as arguments: \<open>argv\<close> is \<open>sys.argv\<close>; \<open>open_file\<close>
  gives, for a file name, the lines that iterating over the open file yields (each with
  its line end), or the exception that \<open>open\<close> raises; \<open>net\<close> and \<open>order\<close> are the
  network and the completion order of the batch. The result is what \<open>main\<close> raises,
  if anything, and the standard output. \<open>sys.exit(1)\<close> raises \<open>SystemExit 1\<close>; an
  exception that \<open>main\<close> does not catch leaves it.
\<close>

definition main ::
  "string list \<Rightarrow> (string \<Rightarrow> exn + string list) \<Rightarrow> (nat \<Rightarrow> transport) \<Rightarrow> nat list \<Rightarrow>
     (exn + unit) \<times> string list" where
  "main argv open_file net order =
     (if length argv < 2 then
        (Inl (SystemExit 1),
         [''Usage: python github_checker.py <file_with_urls.txt> [github_token]'',
          [CHR 0x0A] @ ''File should contain one GitHub URL per line'',
          ''GitHub token is optional but recommended for higher rate limits''])
      else
        (let filename = argv ! 1;
             token = (if length argv > 2 then Some (argv ! 2) else None)
         in case open_file filename of
              Inl (FileNotFoundError e) \<Rightarrow>
                (Inl (SystemExit 1),
                 [''Error: File '' @ [CHR 0x27] @ filename @ [CHR 0x27] @ '' not found''])
            | Inl e \<Rightarrow> (Inl e, [])
            | Inr lines \<Rightarrow>
               (let urls = read_urls lines
                in if urls = [] then
                     (Inl (SystemExit 1), [''No GitHub URLs found in the file''])
                   else
                     (case check_repos_batch (init token 10) net order urls
                             (Some progress_callback)
                             [''Found '' @ str_nat (length urls) @ '' GitHub URLs to check...''] of
                        (Inl e, out) \<Rightarrow> (Inl e, out)
                      | (Inr results, out) \<Rightarrow>
                         (case summarize results [] [] of
                            (status_counts, dead_links) \<Rightarrow>
                              (Inr (),
                               out @
                               [[CHR 0x0A] @ replicate 50 CHR ''='', ''SUMMARY'',
                                replicate 50 CHR ''=''] @
                               print_summary status_counts dead_links))))))"

section \<open>Notions used to state the properties\<close>

text \<open>
  \<open>caught e\<close>: the \<open>except\<close> clause of \<open>check_repo\<close> catches \<open>e\<close>.
  \<open>answered outcome\<close>: the outcome of \<open>session.get\<close> is one after which
  \<open>check_repo\<close> returns a result: the call raised a \<open>RequestException\<close>, or it
  returned a response whose status is not 200, or one with status 200 whose \<open>json()\<close>
  returns an object or raises a \<open>RequestException\<close>.
  \<open>request_of self u\<close>: the call \<open>check_repo\<close> makes for \<open>u\<close>, if it makes one.
  \<open>status_kinds\<close>: the five status values. \<open>dead r\<close>: the test of the summary loop.
\<close>

fun caught :: "exn \<Rightarrow> bool" where
  "caught (RequestException t) = True"
| "caught e = False"

fun is_dict :: "json \<Rightarrow> bool" where
  "is_dict (JObj d) = True"
| "is_dict v = False"

definition answered :: "exn + response \<Rightarrow> bool" where
  "answered outcome =
     (case outcome of
        Inl e \<Rightarrow> caught e
      | Inr resp \<Rightarrow>
          status_code resp = 200 \<longrightarrow>
            (case json resp of Inl e \<Rightarrow> caught e | Inr v \<Rightarrow> is_dict v))"

definition request_of :: "GitHubRepoChecker \<Rightarrow> string \<Rightarrow> request option" where
  "request_of self u =
     (case extract_repo_info u of
        (owner, repo) \<Rightarrow>
          if falsy owner \<or> falsy repo then None
          else Some (api_request self (the owner) (the repo)))"

definition status_kinds :: "string set" where
  "status_kinds = {''INVALID_URL'', ''EXISTS'', ''NOT_FOUND'', ''FORBIDDEN'', ''ERROR''}"

definition dead :: "probe_result \<Rightarrow> bool" where
  "dead r = (status r = ''NOT_FOUND'' \<or> status r = ''ERROR'')"

text \<open>\<open>must_groups p\<close>: the groups that take part in every match of \<open>p\<close>.\<close>

fun must_groups :: "regex \<Rightarrow> nat set" where
  "must_groups Eps = {}"
| "must_groups (Chr a) = {}"
| "must_groups (NotChr a) = {}"
| "must_groups (Cat p q) = must_groups p \<union> must_groups q"
| "must_groups (Plus p) = must_groups p"
| "must_groups (PlusLazy p) = must_groups p"
| "must_groups (Opt p) = {}"
| "must_groups (Group n p) = insert n (must_groups p)"
| "must_groups Dollar = {}"

section \<open>Example surroundings\<close>

text \<open>
  Networks, URL lists and results for the concrete instances below. \<open>net_example\<close>,
  \<open>urls_example\<close> and \<open>results_example\<close> are the example of the specification: three
  lines, of which the first is answered with 200, the second with 404 and the third is
  no URL. \<open>net_array\<close> answers with status 200 and the JSON body \<open>[]\<close> for every
  repository but one, \<open>net_timeout\<close> fails with a time-out for every repository but
  one, and \<open>net_all_404\<close> answers every call with 404.
\<close>

definition net_example :: "nat \<Rightarrow> transport" where
  "net_example i rq =
     (if req_url rq = ''https://api.github.com/repos/golang/go''
      then Inr \<lparr>status_code = 200, json = Inr (JObj [(''stargazers_count'', JNum 120000)])\<rparr>
      else Inr \<lparr>status_code = 404, json = Inr (JObj [(''message'', JStr ''Not Found'')])\<rparr>)"

definition urls_example :: "string list" where
  "urls_example = [''github.com/golang/go'', ''github.com/doesnotexist404xyz/repo'', ''not-a-url'']"

definition results_example :: "probe_result list" where
  "results_example =
   [\<lparr>url = ''not-a-url'', status = ''INVALID_URL'', message = ''Could not parse GitHub URL'',
          private' = None, archived = None, stars = None\<rparr>,
    \<lparr>url = ''github.com/golang/go'', status = ''EXISTS'', message = check_mark @ '' golang/go'',
          private' = Some (JBool False), archived = Some (JBool False), stars = Some (JNum 120000)\<rparr>,
    \<lparr>url = ''github.com/doesnotexist404xyz/repo'', status = ''NOT_FOUND'',
          message = ballot_x @ '' doesnotexist404xyz/repo - Repository not found'',
          private' = None, archived = None, stars = None\<rparr>]"

definition net_array :: "nat \<Rightarrow> transport" where
  "net_array i rq =
     (if req_url rq = ''https://api.github.com/repos/golang/go''
      then Inr \<lparr>status_code = 404, json = Inr (JObj [(''message'', JStr ''Not Found'')])\<rparr>
      else Inr \<lparr>status_code = 200, json = Inr (JArr [])\<rparr>)"

definition net_timeout :: "nat \<Rightarrow> transport" where
  "net_timeout i rq =
     (if req_url rq = ''https://api.github.com/repos/golang/go''
      then Inr \<lparr>status_code = 404, json = Inr (JObj [(''message'', JStr ''Not Found'')])\<rparr>
      else Inl (RequestException ''Read timed out.''))"

definition urls_pair :: "string list" where
  "urls_pair = [''github.com/golang/go'', ''https://github.com/torvalds/linux'']"

definition net_all_404 :: "nat \<Rightarrow> transport" where
  "net_all_404 i rq =
     Inr \<lparr>status_code = 404, json = Inr (JObj [(''message'', JStr ''Not Found'')])\<rparr>"

section \<open>Facts about the parser\<close>

text \<open>The equations of the matcher are unfolded by hand in this section.\<close>

declare rmatch.simps [simp del]

declare re_search.simps [simp del]

lemma rmatch_groups:
  "(s', g') \<in> set (rmatch p s g) \<Longrightarrow> dom g \<union> must_groups p \<subseteq> dom g'"
proof (induction p s g arbitrary: s' g' rule: rmatch.induct)
  case (1 s g)
  then show ?case by (simp add: rmatch.simps(1))
next
  case (2 a s g)
  then show ?case by (auto simp: rmatch.simps(2) split: list.splits if_splits)
next
  case (3 a s g)
  then show ?case by (auto simp: rmatch.simps(3) split: list.splits if_splits)
next
  case (4 p q s g)
  from "4.prems" obtain s1 g1 where a: "(s1, g1) \<in> set (rmatch p s g)"
    and b: "(s', g') \<in> set (rmatch q s1 g1)"
    by (auto simp: rmatch.simps(4))
  from "4.IH"(1) [OF a] have "dom g \<union> must_groups p \<subseteq> dom g1" .
  moreover from "4.IH"(2) [OF a refl b] have "dom g1 \<union> must_groups q \<subseteq> dom g'" .
  ultimately show ?case unfolding must_groups.simps by blast
next
  case (5 p s g)
  from "5.prems" obtain s1 g1 where a: "(s1, g1) \<in> set (rmatch p s g)"
    and b: "(length s1 < length s \<and> (s', g') \<in> set (rmatch (Plus p) s1 g1)) \<or> (s', g') = (s1, g1)"
    by (subst (asm) rmatch.simps(5)) (auto split: if_splits)
  from "5.IH"(1) [OF a] have c: "dom g \<union> must_groups p \<subseteq> dom g1" .
  from b show ?case
  proof
    assume d: "length s1 < length s \<and> (s', g') \<in> set (rmatch (Plus p) s1 g1)"
    then have "dom g1 \<union> must_groups (Plus p) \<subseteq> dom g'"
      using "5.IH"(2) [OF a refl, of s' g'] by simp
    with c show ?thesis unfolding must_groups.simps by blast
  next
    assume "(s', g') = (s1, g1)"
    with c show ?thesis by simp
  qed
next
  case (6 p s g)
  from "6.prems" obtain s1 g1 where a: "(s1, g1) \<in> set (rmatch p s g)"
    and b: "(length s1 < length s \<and> (s', g') \<in> set (rmatch (PlusLazy p) s1 g1)) \<or> (s', g') = (s1, g1)"
    by (subst (asm) rmatch.simps(6)) (auto split: if_splits)
  from "6.IH"(1) [OF a] have c: "dom g \<union> must_groups p \<subseteq> dom g1" .
  from b show ?case
  proof
    assume d: "length s1 < length s \<and> (s', g') \<in> set (rmatch (PlusLazy p) s1 g1)"
    then have "dom g1 \<union> must_groups (PlusLazy p) \<subseteq> dom g'"
      using "6.IH"(2) [OF a refl, of s' g'] by simp
    with c show ?thesis unfolding must_groups.simps by blast
  next
    assume "(s', g') = (s1, g1)"
    with c show ?thesis by simp
  qed
next
  case (7 p s g)
  from "7.prems" have "(s', g') \<in> set (rmatch p s g) \<or> (s', g') = (s, g)"
    by (auto simp: rmatch.simps(7))
  then show ?case
  proof
    assume "(s', g') \<in> set (rmatch p s g)"
    from "7.IH" [OF this] show ?thesis unfolding must_groups.simps by blast
  next
    assume "(s', g') = (s, g)"
    then show ?thesis by simp
  qed
next
  case (8 n p s g)
  from "8.prems" obtain g1 where a: "(s', g1) \<in> set (rmatch p s g)"
    and b: "g' = g1(n \<mapsto> take (length s - length s') s)"
    by (auto simp: rmatch.simps(8))
  from "8.IH" [OF a] show ?case using b by auto
next
  case (9 s g)
  then show ?case by (auto simp: rmatch.simps(9) split: if_splits)
qed

lemma re_search_groups: "re_search p s = Some m \<Longrightarrow> must_groups p \<subseteq> dom m"
proof (induction p s rule: re_search.induct)
  case (1 p s)
  show ?case
  proof (cases "rmatch p s Map.empty")
    case Nil
    with "1.prems" obtain c t where s: "s = c # t" and r: "re_search p t = Some m"
      by (subst (asm) re_search.simps) (auto split: list.splits)
    from "1.IH" [OF Nil s r] show ?thesis .
  next
    case (Cons x xs)
    obtain r g where x: "x = (r, g)" by (cases x)
    with Cons "1.prems" have "m = g"
      by (subst (asm) re_search.simps) simp
    moreover have "(r, g) \<in> set (rmatch p s Map.empty)" using Cons x by simp
    ultimately show ?thesis using rmatch_groups [of r g p s Map.empty] by blast
  qed
qed

lemma re_search_suffix:
  "rmatch p s Map.empty \<noteq> [] \<Longrightarrow> re_search p (pre @ s) \<noteq> None"
proof (induction pre)
  case Nil
  then show ?case by (subst re_search.simps) (auto split: list.splits)
next
  case (Cons c pre)
  then show ?case by (subst re_search.simps) (auto split: list.splits)
qed

lemma lit_Cons: "lit (c # s) = Cat (Chr c) (lit s)"
  by (simp add: lit_def)

lemma rmatch_lit: "rmatch (lit s) (s @ rest) g = [(rest, g)]"
proof (induction s)
  case Nil
  show ?case by (simp add: lit_def rmatch.simps(1))
next
  case (Cons c s)
  then show ?case by (simp add: lit_Cons rmatch.simps(2,4))
qed

lemma rmatch_Plus_NotChr:
  "seg \<noteq> [] \<Longrightarrow> c \<notin> set seg \<Longrightarrow> (rest, g) \<in> set (rmatch (Plus (NotChr c)) (seg @ rest) g)"
proof (induction seg)
  case Nil
  then show ?case by simp
next
  case (Cons x seg)
  from Cons.prems have x: "x \<noteq> c" and c: "c \<notin> set seg" by auto
  have step: "rmatch (Plus (NotChr c)) ((x # seg) @ rest) g =
      rmatch (Plus (NotChr c)) (seg @ rest) g @ [(seg @ rest, g)]"
    using x by (subst rmatch.simps(5)) (simp add: rmatch.simps(3))
  show ?case
  proof (cases "seg = []")
    case True
    show ?thesis unfolding step using True by simp
  next
    case False
    with Cons.IH c have "(rest, g) \<in> set (rmatch (Plus (NotChr c)) (seg @ rest) g)" by simp
    then show ?thesis unfolding step by simp
  qed
qed

lemma rmatch_Group_Plus_NotChr:
  assumes "seg \<noteq> []" and "c \<notin> set seg"
  shows "(rest, g(n \<mapsto> seg)) \<in> set (rmatch (Group n (Plus (NotChr c))) (seg @ rest) g)"
proof -
  have "(rest, g) \<in> set (rmatch (Plus (NotChr c)) (seg @ rest) g)"
    using assms by (rule rmatch_Plus_NotChr)
  then have "(\<lambda>(s', g'). (s', g'(n \<mapsto> take (length (seg @ rest) - length s') (seg @ rest)))) (rest, g)
      \<in> set (rmatch (Group n (Plus (NotChr c))) (seg @ rest) g)"
    unfolding rmatch.simps(8) set_map by (rule imageI)
  then show ?thesis by simp
qed

lemma rmatch_CatI:
  "(s1, g1) \<in> set (rmatch p s g) \<Longrightarrow> (s2, g2) \<in> set (rmatch q s1 g1) \<Longrightarrow>
   (s2, g2) \<in> set (rmatch (Cat p q) s g)"
  by (force simp: rmatch.simps(4))

lemma pattern2_matches:
  assumes "seg1 \<noteq> []" and "CHR ''/'' \<notin> set seg1" and "seg2 \<noteq> []" and "CHR ''/'' \<notin> set seg2"
  shows "rmatch pattern2 (''github.com/'' @ seg1 @ ''/'' @ seg2 @ post) Map.empty \<noteq> []"
proof -
  let ?g1 = "Map.empty(1 \<mapsto> seg1)"
  let ?g2 = "?g1(2 \<mapsto> seg2)"
  let ?s1 = "seg1 @ ''/'' @ seg2 @ post"
  let ?s2 = "''/'' @ seg2 @ post"
  let ?s3 = "seg2 @ post"
  have a: "(?s1, Map.empty) \<in> set (rmatch (lit ''github.com/'') (''github.com/'' @ ?s1) Map.empty)"
    by (simp only: rmatch_lit) simp
  have b: "(?s2, ?g1) \<in> set (rmatch (Group 1 (Plus (NotChr CHR ''/''))) ?s1 Map.empty)"
    using assms(1,2) by (rule rmatch_Group_Plus_NotChr)
  have c: "(?s3, ?g1) \<in> set (rmatch (Chr CHR ''/'') ?s2 ?g1)"
    by (simp add: rmatch.simps(2))
  have d: "(post, ?g2) \<in> set (rmatch (Group 2 (Plus (NotChr CHR ''/''))) ?s3 ?g1)"
    using assms(3,4) by (rule rmatch_Group_Plus_NotChr)
  have e: "(post, ?g2) \<in> set (rmatch Eps post ?g2)" by (simp add: rmatch.simps(1))
  have p: "pattern2 = Cat (lit ''github.com/'') (Cat (Group 1 (Plus (NotChr CHR ''/'')))
      (Cat (Chr CHR ''/'') (Cat (Group 2 (Plus (NotChr CHR ''/''))) Eps)))"
    by (simp add: pattern2_def seq_def)
  have "(post, ?g2) \<in> set (rmatch pattern2 (''github.com/'' @ ?s1) Map.empty)"
    unfolding p
    by (rule rmatch_CatI [OF a], rule rmatch_CatI [OF b], rule rmatch_CatI [OF c],
        rule rmatch_CatI [OF d], rule e)
  then show ?thesis by auto
qed

lemma extract_loop_both_or_neither:
  "\<forall>p \<in> set ps. {1, 2} \<subseteq> must_groups p \<Longrightarrow>
   extract_loop ps u = (None, None) \<or> (\<exists>owner repo. extract_loop ps u = (Some owner, Some repo))"
proof (induction ps)
  case Nil
  show ?case by simp
next
  case (Cons p ps)
  show ?case
  proof (cases "re_search p u")
    case None
    with Cons show ?thesis by simp
  next
    case (Some m)
    from re_search_groups [OF Some] Cons.prems have "{1, 2} \<subseteq> dom m" by auto
    then obtain a b where "m 1 = Some a" and "m 2 = Some b" by auto
    with Some show ?thesis by simp
  qed
qed

lemma must_groups_patterns: "\<forall>p \<in> set patterns. {1, 2} \<subseteq> must_groups p"
  by (simp add: patterns_def pattern1_def pattern2_def seq_def)

lemma extract_repo_info_both_or_neither:
  "extract_repo_info u = (None, None) \<or> (\<exists>owner repo. extract_repo_info u = (Some owner, Some repo))"
  unfolding extract_repo_info_def using must_groups_patterns by (rule extract_loop_both_or_neither)

lemma extract_repo_info_accepts:
  assumes "seg1 \<noteq> []" and "CHR ''/'' \<notin> set seg1" and "seg2 \<noteq> []" and "CHR ''/'' \<notin> set seg2"
  shows "\<exists>owner repo.
    extract_repo_info (pre @ ''github.com/'' @ seg1 @ ''/'' @ seg2 @ post) = (Some owner, Some repo)"
proof -
  let ?u = "pre @ ''github.com/'' @ seg1 @ ''/'' @ seg2 @ post"
  have "re_search pattern2 ?u \<noteq> None"
    using pattern2_matches [OF assms] by (rule re_search_suffix)
  then obtain m2 where m2: "re_search pattern2 ?u = Some m2" by blast
  have "extract_repo_info ?u \<noteq> (None, None)"
  proof (cases "re_search pattern1 ?u")
    case None
    from re_search_groups [OF m2] have "1 \<in> dom m2"
      by (auto simp: pattern2_def seq_def)
    then show ?thesis
      using None m2 by (auto simp: extract_repo_info_def patterns_def)
  next
    case (Some m1)
    from re_search_groups [OF Some] have "1 \<in> dom m1"
      by (auto simp: pattern1_def seq_def)
    then show ?thesis
      using Some by (auto simp: extract_repo_info_def patterns_def)
  qed
  with extract_repo_info_both_or_neither [of ?u] show ?thesis by blast
qed

section \<open>Facts about strings\<close>

lemma contains_prefix: "contains sub (sub @ ys)"
proof (cases "sub @ ys")
  case Nil
  then show ?thesis by simp
next
  case (Cons a list)
  have "take (length sub) (sub @ ys) = sub" by simp
  then show ?thesis unfolding Cons by simp
qed

lemma contains_append: "contains sub (xs @ sub @ ys)"
  by (induction xs) (auto simp: contains_prefix)

lemma contains_suffix: "contains sub (xs @ sub)"
  using contains_append [of sub xs "[]"] by simp

section \<open>Facts about \<open>check_repo\<close>\<close>

lemma check_repo_parsed:
  assumes "extract_repo_info u = (Some owner, Some repo)" and "owner \<noteq> []" and "repo \<noteq> []"
  shows "check_repo self net u = probe self net u owner repo"
  using assms by (simp add: check_repo_def)

lemma check_repo_unparsed:
  assumes "falsy (fst (extract_repo_info u)) \<or> falsy (snd (extract_repo_info u))"
  shows "check_repo self net u =
    (Inr \<lparr>url = u, status = ''INVALID_URL'', message = ''Could not parse GitHub URL'',
          private' = None, archived = None, stars = None\<rparr>, [])"
  using assms by (auto simp: check_repo_def split: prod.splits)

lemma probe_raises:
  "net (api_request self owner repo) = Inl (RequestException t) \<Longrightarrow>
   fst (probe self net u owner repo) =
     Inr \<lparr>url = u, status = ''ERROR'',
          message = ballot_x @ '' '' @ owner @ ''/'' @ repo @ '' - Network error: '' @ t,
          private' = None, archived = None, stars = None\<rparr>"
  by (simp add: probe_def Let_def)

lemma probe_response:
  "net (api_request self owner repo) = Inr resp \<Longrightarrow>
   fst (probe self net u owner repo) =
     (case classify u owner repo resp of Inl e \<Rightarrow> except_clause u owner repo e | Inr r \<Rightarrow> Inr r)"
  by (simp add: probe_def Let_def)

lemma classify_200:
  "status_code resp = 200 \<Longrightarrow> json resp = Inr (JObj d) \<Longrightarrow>
   classify u owner repo resp =
     Inr \<lparr>url = u, status = ''EXISTS'', message = check_mark @ '' '' @ owner @ ''/'' @ repo,
          private' = Some (dict_get d ''private'' (JBool False)),
          archived = Some (dict_get d ''archived'' (JBool False)),
          stars = Some (dict_get d ''stargazers_count'' (JNum 0))\<rparr>"
  by (simp add: classify_def)

lemma classify_404:
  "status_code resp = 404 \<Longrightarrow>
   classify u owner repo resp =
     Inr \<lparr>url = u, status = ''NOT_FOUND'',
          message = ballot_x @ '' '' @ owner @ ''/'' @ repo @ '' - Repository not found'',
          private' = None, archived = None, stars = None\<rparr>"
  by (simp add: classify_def)

lemma classify_403:
  "status_code resp = 403 \<Longrightarrow>
   classify u owner repo resp =
     Inr \<lparr>url = u, status = ''FORBIDDEN'',
          message = warning_sign @ '' '' @ owner @ ''/'' @ repo @
            '' - Access denied (private or rate limited)'',
          private' = None, archived = None, stars = None\<rparr>"
  by (simp add: classify_def)

lemma classify_other:
  "status_code resp \<noteq> 200 \<Longrightarrow> status_code resp \<noteq> 404 \<Longrightarrow> status_code resp \<noteq> 403 \<Longrightarrow>
   classify u owner repo resp =
     Inr \<lparr>url = u, status = ''ERROR'',
          message = ''? '' @ owner @ ''/'' @ repo @ '' - HTTP '' @ str_int (status_code resp),
          private' = None, archived = None, stars = None\<rparr>"
  by (simp add: classify_def)

lemma except_clause_cases:
  "except_clause u owner repo e = Inr r \<Longrightarrow> url r = u \<and> status r = ''ERROR'' \<and> caught e"
  by (cases e) auto

lemma except_clause_returns: "(\<exists>r. except_clause u owner repo e = Inr r) = caught e"
  by (cases e) auto

lemma json_get_returns: "(\<exists>v. json_get j k dflt = Inr v) = is_dict j"
  by (cases j) auto

lemma json_get_raises: "json_get j k dflt = Inl e \<Longrightarrow> \<not> caught e \<and> \<not> is_dict j"
  by (cases j) auto

lemma classify_Inr:
  "classify u owner repo resp = Inr r \<Longrightarrow> url r = u \<and> status r \<in> status_kinds"
  by (auto simp: classify_def status_kinds_def split: if_splits sum.splits)

lemma classify_Inl:
  "classify u owner repo resp = Inl e \<Longrightarrow>
     status_code resp = 200 \<and> (json resp = Inl e \<or> (\<exists>v. json resp = Inr v \<and> \<not> is_dict v \<and> \<not> caught e))"
  by (auto simp: classify_def split: if_splits sum.splits dest: json_get_raises)

lemma classify_returns:
  "(\<exists>r. classify u owner repo resp = Inr r) =
     (status_code resp = 200 \<longrightarrow> (\<exists>v. json resp = Inr v \<and> is_dict v))"
proof (cases "status_code resp = 200")
  case False
  then show ?thesis by (simp add: classify_def)
next
  case True
  show ?thesis
  proof (cases "json resp")
    case (Inl e)
    with True show ?thesis by (simp add: classify_def)
  next
    case (Inr v)
    with True show ?thesis by (cases v) (simp_all add: classify_def)
  qed
qed

lemma probe_Inr:
  "fst (probe self net u owner repo) = Inr r \<Longrightarrow> url r = u \<and> status r \<in> status_kinds"
  by (auto simp: probe_def Let_def status_kinds_def split: sum.splits
      dest: except_clause_cases classify_Inr)

lemma probe_snd: "snd (probe self net u owner repo) = [api_request self owner repo]"
  by (simp add: probe_def Let_def)

lemma probe_returns:
  "(\<exists>r. fst (probe self net u owner repo) = Inr r) = answered (net (api_request self owner repo))"
proof (cases "net (api_request self owner repo)")
  case (Inl e)
  then show ?thesis
    by (simp add: probe_def Let_def answered_def except_clause_returns)
next
  case (Inr resp)
  show ?thesis
  proof (cases "classify u owner repo resp")
    case (Inl e)
    from classify_Inl [OF Inl] have c: "status_code resp = 200"
      and d: "json resp = Inl e \<or> (\<exists>v. json resp = Inr v \<and> \<not> is_dict v \<and> \<not> caught e)"
      by auto
    from d have "answered (Inr resp) = caught e"
      using c by (auto simp: answered_def)
    with Inr Inl show ?thesis
      by (simp add: probe_def Let_def except_clause_returns)
  next
    case r: (Inr r)
    then have "\<exists>r. classify u owner repo resp = Inr r" by blast
    then have "status_code resp = 200 \<longrightarrow> (\<exists>v. json resp = Inr v \<and> is_dict v)"
      by (simp only: classify_returns)
    then have "answered (Inr resp)" by (auto simp: answered_def)
    with Inr r show ?thesis by (simp add: probe_def Let_def)
  qed
qed

lemma check_repo_cases:
  "(request_of self u = None \<and> check_repo self net u =
      (Inr \<lparr>url = u, status = ''INVALID_URL'', message = ''Could not parse GitHub URL'',
            private' = None, archived = None, stars = None\<rparr>, [])) \<or>
   (\<exists>owner repo. request_of self u = Some (api_request self owner repo) \<and>
      check_repo self net u = probe self net u owner repo)"
  by (auto simp: request_of_def check_repo_def split: prod.splits)

lemma check_repo_Inr:
  assumes "fst (check_repo self net u) = Inr r"
  shows "url r = u \<and> status r \<in> status_kinds"
proof -
  from check_repo_cases [of self u net] show ?thesis
  proof (elim disjE conjE exE)
    assume "check_repo self net u =
      (Inr \<lparr>url = u, status = ''INVALID_URL'', message = ''Could not parse GitHub URL'',
            private' = None, archived = None, stars = None\<rparr>, [])"
    with assms show ?thesis by (auto simp: status_kinds_def)
  next
    fix owner repo
    assume "check_repo self net u = probe self net u owner repo"
    with assms have "fst (probe self net u owner repo) = Inr r" by simp
    then show ?thesis by (rule probe_Inr)
  qed
qed

lemma check_repo_snd:
  "snd (check_repo self net u) = (case request_of self u of None \<Rightarrow> [] | Some rq \<Rightarrow> [rq])"
  using check_repo_cases [of self u net] by (auto simp: probe_snd)

lemma check_repo_returns:
  "(\<exists>r. fst (check_repo self net u) = Inr r) =
     (case request_of self u of None \<Rightarrow> True | Some rq \<Rightarrow> answered (net rq))"
proof -
  from check_repo_cases [of self u net] show ?thesis
  proof (elim disjE conjE exE)
    assume "request_of self u = None" and "check_repo self net u =
      (Inr \<lparr>url = u, status = ''INVALID_URL'', message = ''Could not parse GitHub URL'',
            private' = None, archived = None, stars = None\<rparr>, [])"
    then show ?thesis by simp
  next
    fix owner repo
    assume "request_of self u = Some (api_request self owner repo)"
      and "check_repo self net u = probe self net u owner repo"
    then show ?thesis
      using probe_returns [of self net u owner repo] by simp
  qed
qed

lemma check_repo_request_failure:
  assumes "request_of self u = Some rq" and "net rq = Inl (RequestException t)"
  shows "\<exists>r. fst (check_repo self net u) = Inr r \<and> url r = u \<and> status r = ''ERROR'' \<and>
           contains t (message r)"
proof -
  from check_repo_cases [of self u net] assms(1) obtain owner repo
    where rq: "rq = api_request self owner repo"
      and c: "check_repo self net u = probe self net u owner repo"
    by auto
  let ?m = "ballot_x @ '' '' @ owner @ ''/'' @ repo @ '' - Network error: '' @ t"
  have "?m = (ballot_x @ '' '' @ owner @ ''/'' @ repo @ '' - Network error: '') @ t" by simp
  then have "contains t ?m" by (simp only: contains_suffix)
  moreover have "fst (check_repo self net u) =
      Inr \<lparr>url = u, status = ''ERROR'', message = ?m,
           private' = None, archived = None, stars = None\<rparr>"
    using assms(2) rq c by (simp add: probe_raises)
  ultimately show ?thesis by simp
qed

lemma check_repo_json_failure:
  assumes "request_of self u = Some rq" and "net rq = Inr resp" and "status_code resp = 200"
    and "json resp = Inl (RequestException t)"
  shows "\<exists>r. fst (check_repo self net u) = Inr r \<and> url r = u \<and> status r = ''ERROR'' \<and>
           contains t (message r)"
proof -
  from check_repo_cases [of self u net] assms(1) obtain owner repo
    where rq: "rq = api_request self owner repo"
      and c: "check_repo self net u = probe self net u owner repo"
    by auto
  let ?m = "ballot_x @ '' '' @ owner @ ''/'' @ repo @ '' - Network error: '' @ t"
  have "?m = (ballot_x @ '' '' @ owner @ ''/'' @ repo @ '' - Network error: '') @ t" by simp
  then have "contains t ?m" by (simp only: contains_suffix)
  moreover have "classify u owner repo resp = Inl (RequestException t)"
    using assms(3,4) by (simp add: classify_def)
  then have "fst (check_repo self net u) =
      Inr \<lparr>url = u, status = ''ERROR'', message = ?m,
           private' = None, archived = None, stars = None\<rparr>"
    using assms(2) rq c by (simp add: probe_response)
  ultimately show ?thesis by simp
qed

lemma probe_Inl: "fst (probe self net u owner repo) = Inl e \<Longrightarrow> \<not> caught e"
proof -
  have x: "except_clause u owner repo e' = Inl e \<Longrightarrow> \<not> caught e" for e'
    by (cases e') auto
  assume "fst (probe self net u owner repo) = Inl e"
  then show ?thesis
    by (auto simp: probe_def Let_def split: sum.splits dest: x)
qed

lemma check_repo_Inl:
  assumes "fst (check_repo self net u) = Inl e"
  shows "\<not> caught e"
proof -
  from check_repo_cases [of self u net] show ?thesis
  proof (elim disjE conjE exE)
    assume "check_repo self net u =
      (Inr \<lparr>url = u, status = ''INVALID_URL'', message = ''Could not parse GitHub URL'',
            private' = None, archived = None, stars = None\<rparr>, [])"
    with assms show ?thesis by simp
  next
    fix owner repo
    assume "check_repo self net u = probe self net u owner repo"
    with assms have "fst (probe self net u owner repo) = Inl e" by simp
    then show ?thesis by (rule probe_Inl)
  qed
qed

section \<open>Facts about the batch\<close>

lemma reap_fst:
  "(fst (reap n cb futures i acc st) = Inr results) = (map Inr results = map Inr acc @ futures)"
proof (induction futures arbitrary: i acc st)
  case Nil
  show ?case by (auto simp: inj_map_eq_map)
next
  case (Cons future futures)
  show ?case
  proof (cases future)
    case (Inl e)
    have "map Inr results \<noteq> map Inr acc @ Inl e # futures"
    proof
      assume "map Inr results = map Inr acc @ Inl e # futures"
      then have "Inl e \<in> set (map Inr results)" by simp
      then show False by auto
    qed
    with Inl show ?thesis by simp
  next
    case (Inr r)
    with Cons.IH [of "i + 1" "acc @ [r]"] show ?thesis by simp
  qed
qed

lemma reap_all:
  "reap n cb (map Inr rs) i acc st =
     (Inr (acc @ rs),
      case cb of None \<Rightarrow> st
      | Some progress \<Rightarrow> fold (\<lambda>(j, r). progress (j + 1) n r) (enumerate i rs) st)"
proof (induction rs arbitrary: i acc st)
  case Nil
  show ?case by (cases cb) simp_all
next
  case (Cons r rs)
  show ?case using Cons.IH [of "Suc i" "acc @ [r]"] by (cases cb) simp_all
qed

lemma fold_enumerate:
  "fold (\<lambda>(j, r). f (j + 1) r) (enumerate i rs) st =
   fold (\<lambda>(k, r). f k r) (zip [Suc i..<Suc i + length rs] rs) st"
  by (induction rs arbitrary: i st) (simp_all add: upt_conv_Cons del: upt_Suc)

lemma completion_order_length: "completion_order order k \<Longrightarrow> length order = k"
  unfolding completion_order_def using distinct_card [of order] by auto

lemma as_completed_submit_all:
  assumes "completion_order order (length urls)"
  shows "as_completed order (submit_all self net urls) =
           map (\<lambda>i. fst (check_repo self (net i) (urls ! i))) order"
proof -
  have "\<And>i. i \<in> set order \<Longrightarrow> i < length urls"
    using assms by (simp add: completion_order_def)
  then show ?thesis
    by (simp add: as_completed_def submit_all_def)
qed

lemma reap_raises:
  "fst (reap n cb futures i acc st) = Inl e \<Longrightarrow> Inl e \<in> set futures"
proof (induction futures arbitrary: i acc st)
  case Nil
  then show ?case by simp
next
  case (Cons future futures)
  show ?case
  proof (cases future)
    case (Inl e')
    with Cons.prems show ?thesis by simp
  next
    case (Inr r)
    with Cons.prems have "fst (reap n cb futures (i + 1) (acc @ [r])
        (case cb of None \<Rightarrow> st | Some progress \<Rightarrow> progress (i + 1) n r st)) = Inl e"
      by simp
    from Cons.IH [OF this] show ?thesis by simp
  qed
qed

lemma batch_no_workers:
  "max_workers self \<le> 0 \<Longrightarrow>
   check_repos_batch self net order urls cb st =
     (Inl (ValueError ''max_workers must be greater than 0''), st)"
  by (simp add: check_repos_batch_def)

lemma batch_reap:
  "0 < max_workers self \<Longrightarrow>
   check_repos_batch self net order urls cb st =
     reap (length urls) cb (as_completed order (submit_all self net urls)) 0 [] st"
  by (simp add: check_repos_batch_def)

lemma batch_workers:
  "fst (check_repos_batch self net order urls cb st) = Inr results \<Longrightarrow> 0 < max_workers self"
  by (cases "max_workers self \<le> 0") (simp_all add: batch_no_workers)

lemma batch_fst:
  assumes "completion_order order (length urls)"
  shows "(fst (check_repos_batch self net order urls cb st) = Inr results) =
           (0 < max_workers self \<and>
            map Inr results = map (\<lambda>i. fst (check_repo self (net i) (urls ! i))) order)"
proof (cases "0 < max_workers self")
  case True
  then show ?thesis
    by (simp add: batch_reap reap_fst as_completed_submit_all [OF assms])
next
  case False
  then show ?thesis by (simp add: batch_no_workers)
qed

lemma batch_results:
  assumes "completion_order order (length urls)"
    and "fst (check_repos_batch self net order urls cb st) = Inr results"
  shows "results = map (\<lambda>i. projr (fst (check_repo self (net i) (urls ! i)))) order"
proof -
  from assms have "map Inr results = map (\<lambda>i. fst (check_repo self (net i) (urls ! i))) order"
    by (simp add: batch_fst)
  then have "map projr (map Inr results :: (exn + probe_result) list) =
      map projr (map (\<lambda>i. fst (check_repo self (net i) (urls ! i))) order)"
    by simp
  then show ?thesis by (simp add: comp_def)
qed

lemma batch_length:
  assumes "completion_order order (length urls)"
    and "fst (check_repos_batch self net order urls cb st) = Inr results"
  shows "length results = length urls"
  using batch_results [OF assms] completion_order_length [OF assms(1)] by simp

lemma batch_returns_iff:
  assumes "completion_order order (length urls)"
  shows "(\<exists>results. fst (check_repos_batch self net order urls cb st) = Inr results) =
           (0 < max_workers self \<and>
            (\<forall>i<length urls. \<exists>r. fst (check_repo self (net i) (urls ! i)) = Inr r))"
proof
  assume "\<exists>results. fst (check_repos_batch self net order urls cb st) = Inr results"
  then obtain results where w: "0 < max_workers self" and
    m: "map Inr results = map (\<lambda>i. fst (check_repo self (net i) (urls ! i))) order"
    using assms by (auto simp: batch_fst)
  have "\<forall>i<length urls. \<exists>r. fst (check_repo self (net i) (urls ! i)) = Inr r"
  proof (intro allI impI)
    fix i assume "i < length urls"
    then have "i \<in> set order" using assms by (simp add: completion_order_def)
    then have "fst (check_repo self (net i) (urls ! i)) \<in>
        set (map (\<lambda>i. fst (check_repo self (net i) (urls ! i))) order)"
      by simp
    then have "fst (check_repo self (net i) (urls ! i)) \<in> set (map Inr results)"
      by (simp only: m)
    then show "\<exists>r. fst (check_repo self (net i) (urls ! i)) = Inr r" by auto
  qed
  with w show "0 < max_workers self \<and>
      (\<forall>i<length urls. \<exists>r. fst (check_repo self (net i) (urls ! i)) = Inr r)"
    by simp
next
  assume aw: "0 < max_workers self \<and>
      (\<forall>i<length urls. \<exists>r. fst (check_repo self (net i) (urls ! i)) = Inr r)"
  then have w: "0 < max_workers self"
    and a: "\<forall>i<length urls. \<exists>r. fst (check_repo self (net i) (urls ! i)) = Inr r"
    by simp_all
  let ?rs = "map (\<lambda>i. projr (fst (check_repo self (net i) (urls ! i)))) order"
  have "\<And>i. i \<in> set order \<Longrightarrow>
      Inr (projr (fst (check_repo self (net i) (urls ! i)))) = fst (check_repo self (net i) (urls ! i))"
  proof -
    fix i assume "i \<in> set order"
    then have "i < length urls" using assms by (simp add: completion_order_def)
    with a obtain r where "fst (check_repo self (net i) (urls ! i)) = Inr r" by blast
    then show "Inr (projr (fst (check_repo self (net i) (urls ! i)))) =
        fst (check_repo self (net i) (urls ! i))" by simp
  qed
  then have "map Inr ?rs = map (\<lambda>i. fst (check_repo self (net i) (urls ! i))) order"
    by (simp add: comp_def)
  then have "fst (check_repos_batch self net order urls cb st) = Inr ?rs"
    using assms w by (simp only: batch_fst)
  then show "\<exists>results. fst (check_repos_batch self net order urls cb st) = Inr results" by blast
qed

lemma batch_all:
  assumes "completion_order order (length urls)"
    and "fst (check_repos_batch self net order urls cb st) = Inr results"
  shows "check_repos_batch self net order urls cb st =
     (Inr results,
      case cb of None \<Rightarrow> st
      | Some progress \<Rightarrow>
          fold (\<lambda>(k, r). progress k (length urls) r) (zip [1..<Suc (length urls)] results) st)"
proof -
  from assms have m: "as_completed order (submit_all self net urls) = map Inr results"
    by (simp add: batch_fst as_completed_submit_all)
  have l: "length results = length urls" using assms by (rule batch_length)
  have w: "0 < max_workers self" using assms(2) by (rule batch_workers)
  note unfold = batch_reap [OF w]
  show ?thesis
  proof (cases cb)
    case None
    then show ?thesis by (simp add: unfold m reap_all)
  next
    case (Some progress)
    have "fold (\<lambda>(j, r). progress (j + 1) (length urls) r) (enumerate 0 results) st =
        fold (\<lambda>(k, r). progress k (length urls) r) (zip [Suc 0..<Suc 0 + length results] results) st"
      by (rule fold_enumerate)
    with Some l show ?thesis by (simp add: unfold m reap_all)
  qed
qed

lemma batch_urls:
  assumes "completion_order order (length urls)"
    and "fst (check_repos_batch self net order urls cb st) = Inr results"
  shows "map url results = map (\<lambda>i. urls ! i) order"
proof -
  have r: "results = map (\<lambda>i. projr (fst (check_repo self (net i) (urls ! i)))) order"
    using assms by (rule batch_results)
  have ok: "\<forall>i<length urls. \<exists>r. fst (check_repo self (net i) (urls ! i)) = Inr r"
    using assms batch_returns_iff [OF assms(1), of self net cb st] by blast
  have "url (projr (fst (check_repo self (net i) (urls ! i)))) = urls ! i" if "i \<in> set order" for i
  proof -
    from that have "i < length urls" using assms(1) by (simp add: completion_order_def)
    with ok obtain x where x: "fst (check_repo self (net i) (urls ! i)) = Inr x" by blast
    then have "url x = urls ! i" using check_repo_Inr by blast
    with x show ?thesis by simp
  qed
  then show ?thesis by (subst r) (simp add: comp_def)
qed

lemma completion_orders_mset:
  assumes "completion_order order1 k" and "completion_order order2 k"
  shows "mset order1 = mset order2"
  using assms by (simp add: completion_order_def set_eq_iff_mset_eq_distinct [symmetric])

lemma batch_example: "fst (check_repos_batch (init None 10) net_example [2, 0, 1] urls_example (Some progress_callback) []) = Inr
   [\<lparr>url = ''not-a-url'', status = ''INVALID_URL'', message = ''Could not parse GitHub URL'',
          private' = None, archived = None, stars = None\<rparr>,
    \<lparr>url = ''github.com/golang/go'', status = ''EXISTS'', message = check_mark @ '' golang/go'',
          private' = Some (JBool False), archived = Some (JBool False), stars = Some (JNum 120000)\<rparr>,
    \<lparr>url = ''github.com/doesnotexist404xyz/repo'', status = ''NOT_FOUND'', message = ballot_x @ '' doesnotexist404xyz/repo - Repository not found'',
          private' = None, archived = None, stars = None\<rparr>]"
  by code_simp

lemma batch_404_forward:
  "fst (check_repos_batch (init None 10) net_all_404 [0, 1] urls_pair (Some progress_callback) []) =
     Inr [\<lparr>url = ''github.com/golang/go'', status = ''NOT_FOUND'',
           message = ballot_x @ '' golang/go - Repository not found'',
           private' = None, archived = None, stars = None\<rparr>,
          \<lparr>url = ''https://github.com/torvalds/linux'', status = ''NOT_FOUND'',
           message = ballot_x @ '' torvalds/linux - Repository not found'',
           private' = None, archived = None, stars = None\<rparr>]"
  by code_simp

lemma batch_404_backward:
  "fst (check_repos_batch (init None 10) net_all_404 [1, 0] urls_pair (Some progress_callback) []) =
     Inr [\<lparr>url = ''https://github.com/torvalds/linux'', status = ''NOT_FOUND'',
           message = ballot_x @ '' torvalds/linux - Repository not found'',
           private' = None, archived = None, stars = None\<rparr>,
          \<lparr>url = ''github.com/golang/go'', status = ''NOT_FOUND'',
           message = ballot_x @ '' golang/go - Repository not found'',
           private' = None, archived = None, stars = None\<rparr>]"
  by code_simp

section \<open>Facts about the summary\<close>

lemma map_of_dict_set: "map_of (dict_set d k v) = (map_of d)(k \<mapsto> v)"
  by (induction d k v rule: dict_set.induct) (auto simp: fun_upd_twist)

lemma dict_get_dict_set:
  "dict_get (dict_set d k v) k' dflt = (if k' = k then v else dict_get d k' dflt)"
  by (simp add: dict_get_def map_of_dict_set)

lemma keys_dict_set: "set (map fst (dict_set d k v)) = insert k (set (map fst d))"
  by (induction d k v rule: dict_set.induct) auto

lemma distinct_dict_set: "distinct (map fst d) \<Longrightarrow> distinct (map fst (dict_set d k v))"
proof (induction d k v rule: dict_set.induct)
  case (1 k v)
  show ?case by simp
next
  case (2 k' v' d k v)
  then show ?case
    using keys_dict_set [of d k v] by auto
qed

lemma sum_dict_set:
  "sum_list (map snd (dict_set d k v)) + dict_get d k 0 = sum_list (map snd d) + (v :: nat)"
  by (induction d k v rule: dict_set.induct) (auto simp: dict_get_def)

lemma summarize_dead_links:
  "snd (summarize results status_counts dead_links) = dead_links @ map url (filter dead results)"
  by (induction results arbitrary: status_counts dead_links) (auto simp: dead_def)

lemma summarize_keys:
  "set (map fst (fst (summarize results status_counts dead_links))) =
     set (map fst status_counts) \<union> status ` set results"
proof (induction results arbitrary: status_counts dead_links)
  case Nil
  show ?case by simp
next
  case (Cons r rs)
  show ?case
    by (simp only: summarize.simps Cons.IH keys_dict_set) auto
qed

lemma summarize_distinct:
  "distinct (map fst status_counts) \<Longrightarrow>
     distinct (map fst (fst (summarize results status_counts dead_links)))"
  by (induction results arbitrary: status_counts dead_links) (simp_all add: distinct_dict_set)

lemma summarize_sum:
  "sum_list (map snd (fst (summarize results status_counts dead_links))) =
     sum_list (map snd status_counts) + length results"
proof (induction results arbitrary: status_counts dead_links)
  case Nil
  show ?case by simp
next
  case (Cons r rs)
  have "sum_list (map snd (dict_set status_counts (status r) (dict_get status_counts (status r) 0 + 1))) =
      sum_list (map snd status_counts) + 1"
    using sum_dict_set [of status_counts "status r" "dict_get status_counts (status r) 0 + 1"]
    by simp
  then show ?case by (simp add: Cons.IH)
qed

lemma summarize_get:
  "dict_get (fst (summarize results status_counts dead_links)) s 0 =
     dict_get status_counts s 0 + length (filter (\<lambda>r. status r = s) results)"
proof (induction results arbitrary: status_counts dead_links)
  case Nil
  show ?case by simp
next
  case (Cons r rs)
  show ?case by (simp add: Cons.IH dict_get_dict_set)
qed

lemma summarize_map_of:
  "map_of (fst (summarize results [] [])) s =
     (if s \<in> status ` set results then Some (length (filter (\<lambda>r. status r = s) results)) else None)"
proof (cases "s \<in> status ` set results")
  case False
  then have "s \<notin> fst ` set (fst (summarize results [] []))"
    using summarize_keys [of results "[]" "[]"] by simp
  then have "map_of (fst (summarize results [] [])) s = None"
    by (simp add: map_of_eq_None_iff)
  with False show ?thesis by simp
next
  case True
  then have "s \<in> fst ` set (fst (summarize results [] []))"
    using summarize_keys [of results "[]" "[]"] by simp
  then have "map_of (fst (summarize results [] [])) s \<noteq> None"
    by (simp add: map_of_eq_None_iff)
  then obtain n where n: "map_of (fst (summarize results [] [])) s = Some n"
    by blast
  then have "dict_get (fst (summarize results [] [])) s 0 = n"
    by (simp add: dict_get_def)
  moreover have "dict_get (fst (summarize results [] [])) s 0 =
      length (filter (\<lambda>r. status r = s) results)"
    by (simp add: summarize_get) (simp add: dict_get_def)
  ultimately have "n = length (filter (\<lambda>r. status r = s) results)"
    by simp
  with n True show ?thesis by simp
qed

lemma summarize_counts_mset:
  assumes "mset r1 = mset r2"
  shows "map_of (fst (summarize r1 [] [])) = map_of (fst (summarize r2 [] []))"
proof
  fix s
  from assms have "set r1 = set r2" by (rule mset_eq_setD)
  moreover have "length (filter (\<lambda>r. status r = s) r1) = length (filter (\<lambda>r. status r = s) r2)"
  proof -
    have "mset (filter (\<lambda>r. status r = s) r1) = mset (filter (\<lambda>r. status r = s) r2)"
      by (simp only: mset_filter assms)
    then show ?thesis by (rule mset_eq_length)
  qed
  ultimately show "map_of (fst (summarize r1 [] [])) s = map_of (fst (summarize r2 [] [])) s"
    by (simp add: summarize_map_of)
qed

lemma summarize_dead_mset:
  assumes "mset r1 = mset r2"
  shows "mset (snd (summarize r1 [] [])) = mset (snd (summarize r2 [] []))"
proof -
  have "mset (map url (filter dead r1)) = image_mset url (filter_mset dead (mset r1))"
    by simp
  also have "\<dots> = image_mset url (filter_mset dead (mset r2))"
    by (simp only: assms)
  also have "\<dots> = mset (map url (filter dead r2))"
    by simp
  finally show ?thesis by (simp add: summarize_dead_links)
qed

section \<open>Facts about \<open>main\<close>\<close>






lemma main_returns:
  assumes "main argv open_file net order = (Inr (), out)"
  shows "\<exists>lines token results printed status_counts dead_links.
     open_file (argv ! 1) = Inr lines \<and>
     fst (check_repos_batch (init token 10) net order (read_urls lines) (Some progress_callback)
        [''Found '' @ str_nat (length (read_urls lines)) @ '' GitHub URLs to check...'']) =
       Inr results \<and>
     summarize results [] [] = (status_counts, dead_links) \<and>
     out = printed @ print_summary status_counts dead_links"
proof -
  have a: "\<not> length argv < 2"
    using assms by (auto simp: main_def)
  obtain lines where l: "open_file (argv ! 1) = Inr lines"
    using assms a by (cases "open_file (argv ! 1)") (auto simp: main_def Let_def split: exn.splits)
  let ?token = "if length argv > 2 then Some (argv ! 2) else None"
  let ?b = "check_repos_batch (init ?token 10) net order (read_urls lines) (Some progress_callback)
        [''Found '' @ str_nat (length (read_urls lines)) @ '' GitHub URLs to check...'']"
  have u: "read_urls lines \<noteq> []"
    using assms a l by (auto simp: main_def Let_def)
  obtain res printed where b: "?b = (res, printed)" by (cases ?b)
  from assms a l u b obtain results where r: "res = Inr results"
    by (cases res) (auto simp: main_def Let_def)
  obtain sc dl where sm: "summarize results [] [] = (sc, dl)" by (cases "summarize results [] []")
  from assms a l u b r sm have "out = (printed @ [[CHR 0x0A] @ replicate 50 CHR ''='', ''SUMMARY'',
      replicate 50 CHR ''='']) @ print_summary sc dl"
    by (simp add: main_def Let_def)
  moreover from b r have "fst ?b = Inr results" by simp
  ultimately show ?thesis using l sm by blast
qed

section \<open>The claims\<close>

text \<open>
  C1, as the code has it. For a URL that the parser takes apart into a non-empty owner
  and a non-empty repository, \<open>check_repo\<close> classifies the outcome of its call as
  follows. A response with status 200 whose body \<open>json()\<close> decodes to an object gives
  \<open>EXISTS\<close>, with \<open>private\<close>, \<open>archived\<close> and \<open>stars\<close> read from the keys
  \<open>private\<close>, \<open>archived\<close> and \<open>stargazers_count\<close> of the body and \<open>False\<close>,
  \<open>False\<close> and \<open>0\<close> for a key that is absent. Status 404 gives \<open>NOT_FOUND\<close>.
  Status 403 gives \<open>FORBIDDEN\<close>, not \<open>NOT_FOUND\<close>, with a message that names both
  \<open>private\<close> and \<open>rate limited\<close>. Any other status gives \<open>ERROR\<close> with the status
  code, in decimal, in the message. A \<open>RequestException\<close> raised by the call gives
  \<open>ERROR\<close> with the text of the exception in the message. A response with status 200
  does not give \<open>EXISTS\<close> when its body is no JSON object: when \<open>json()\<close> raises a
  \<open>RequestException\<close> the result is \<open>ERROR\<close> with the text of the exception in the
  message; when \<open>json()\<close> raises another exception, that exception leaves
  \<open>check_repo\<close>; and when \<open>json()\<close> returns a value that is not an object,
  \<open>AttributeError\<close> leaves \<open>check_repo\<close>.
\<close>

theorem check_repo_classifies_response:
  assumes "extract_repo_info u = (Some owner, Some repo)" and "owner \<noteq> []" and "repo \<noteq> []"
  shows
    "(\<forall>resp d. net (api_request self owner repo) = Inr resp \<and> status_code resp = 200 \<and>
         json resp = Inr (JObj d) \<longrightarrow>
       fst (check_repo self net u) =
         Inr \<lparr>url = u, status = ''EXISTS'', message = check_mark @ '' '' @ owner @ ''/'' @ repo,
              private' = Some (dict_get d ''private'' (JBool False)),
              archived = Some (dict_get d ''archived'' (JBool False)),
              stars = Some (dict_get d ''stargazers_count'' (JNum 0))\<rparr>) \<and>
     (\<forall>resp. net (api_request self owner repo) = Inr resp \<and> status_code resp = 404 \<longrightarrow>
       (\<exists>m. fst (check_repo self net u) =
          Inr \<lparr>url = u, status = ''NOT_FOUND'', message = m,
               private' = None, archived = None, stars = None\<rparr>)) \<and>
     (\<forall>resp. net (api_request self owner repo) = Inr resp \<and> status_code resp = 403 \<longrightarrow>
       (\<exists>m. fst (check_repo self net u) =
          Inr \<lparr>url = u, status = ''FORBIDDEN'', message = m,
               private' = None, archived = None, stars = None\<rparr> \<and>
          contains ''private'' m \<and> contains ''rate limited'' m)) \<and>
     (\<forall>resp. net (api_request self owner repo) = Inr resp \<and> status_code resp \<noteq> 200 \<and>
         status_code resp \<noteq> 404 \<and> status_code resp \<noteq> 403 \<longrightarrow>
       (\<exists>m. fst (check_repo self net u) =
          Inr \<lparr>url = u, status = ''ERROR'', message = m,
               private' = None, archived = None, stars = None\<rparr> \<and>
          contains (str_int (status_code resp)) m)) \<and>
     (\<forall>t. net (api_request self owner repo) = Inl (RequestException t) \<longrightarrow>
       (\<exists>m. fst (check_repo self net u) =
          Inr \<lparr>url = u, status = ''ERROR'', message = m,
               private' = None, archived = None, stars = None\<rparr> \<and>
          contains t m)) \<and>
     (\<forall>resp t. net (api_request self owner repo) = Inr resp \<and> status_code resp = 200 \<and>
         json resp = Inl (RequestException t) \<longrightarrow>
       (\<exists>m. fst (check_repo self net u) =
          Inr \<lparr>url = u, status = ''ERROR'', message = m,
               private' = None, archived = None, stars = None\<rparr> \<and>
          contains t m)) \<and>
     (\<forall>resp e. net (api_request self owner repo) = Inr resp \<and> status_code resp = 200 \<and>
         json resp = Inl e \<and> \<not> caught e \<longrightarrow>
       fst (check_repo self net u) = Inl e) \<and>
     (\<forall>resp v. net (api_request self owner repo) = Inr resp \<and> status_code resp = 200 \<and>
         json resp = Inr v \<and> \<not> is_dict v \<longrightarrow>
       fst (check_repo self net u) =
         Inl (AttributeError ([CHR 0x27] @ type_name v @ [CHR 0x27] @
           '' object has no attribute '' @ [CHR 0x27] @ ''get'' @ [CHR 0x27])))"
proof -
  note parsed = check_repo_parsed [OF assms]
  have ok: "\<forall>resp d. net (api_request self owner repo) = Inr resp \<and> status_code resp = 200 \<and>
         json resp = Inr (JObj d) \<longrightarrow>
       fst (check_repo self net u) =
         Inr \<lparr>url = u, status = ''EXISTS'', message = check_mark @ '' '' @ owner @ ''/'' @ repo,
              private' = Some (dict_get d ''private'' (JBool False)),
              archived = Some (dict_get d ''archived'' (JBool False)),
              stars = Some (dict_get d ''stargazers_count'' (JNum 0))\<rparr>"
    by (simp add: parsed probe_response classify_200)
  have nf: "\<forall>resp. net (api_request self owner repo) = Inr resp \<and> status_code resp = 404 \<longrightarrow>
       (\<exists>m. fst (check_repo self net u) =
          Inr \<lparr>url = u, status = ''NOT_FOUND'', message = m,
               private' = None, archived = None, stars = None\<rparr>)"
    by (simp add: parsed probe_response classify_404)
  have fb: "\<forall>resp. net (api_request self owner repo) = Inr resp \<and> status_code resp = 403 \<longrightarrow>
       (\<exists>m. fst (check_repo self net u) =
          Inr \<lparr>url = u, status = ''FORBIDDEN'', message = m,
               private' = None, archived = None, stars = None\<rparr> \<and>
          contains ''private'' m \<and> contains ''rate limited'' m)"
  proof (intro allI impI)
    fix resp
    assume a: "net (api_request self owner repo) = Inr resp \<and> status_code resp = 403"
    let ?m = "warning_sign @ '' '' @ owner @ ''/'' @ repo @
            '' - Access denied (private or rate limited)''"
    have 1: "?m = (warning_sign @ '' '' @ owner @ ''/'' @ repo @ '' - Access denied ('') @
        ''private'' @ '' or rate limited)''"
      by simp
    have 2: "?m = (warning_sign @ '' '' @ owner @ ''/'' @ repo @ '' - Access denied (private or '') @
        ''rate limited'' @ '')''"
      by simp
    have "contains ''private'' ?m" by (subst 1) (rule contains_append)
    moreover have "contains ''rate limited'' ?m" by (subst 2) (rule contains_append)
    moreover have "fst (check_repo self net u) =
          Inr \<lparr>url = u, status = ''FORBIDDEN'', message = ?m,
               private' = None, archived = None, stars = None\<rparr>"
      using a by (simp add: parsed probe_response classify_403)
    ultimately show "\<exists>m. fst (check_repo self net u) =
          Inr \<lparr>url = u, status = ''FORBIDDEN'', message = m,
               private' = None, archived = None, stars = None\<rparr> \<and>
          contains ''private'' m \<and> contains ''rate limited'' m"
      by blast
  qed
  have er: "\<forall>resp. net (api_request self owner repo) = Inr resp \<and> status_code resp \<noteq> 200 \<and>
         status_code resp \<noteq> 404 \<and> status_code resp \<noteq> 403 \<longrightarrow>
       (\<exists>m. fst (check_repo self net u) =
          Inr \<lparr>url = u, status = ''ERROR'', message = m,
               private' = None, archived = None, stars = None\<rparr> \<and>
          contains (str_int (status_code resp)) m)"
  proof (intro allI impI)
    fix resp
    assume a: "net (api_request self owner repo) = Inr resp \<and> status_code resp \<noteq> 200 \<and>
         status_code resp \<noteq> 404 \<and> status_code resp \<noteq> 403"
    let ?m = "''? '' @ owner @ ''/'' @ repo @ '' - HTTP '' @ str_int (status_code resp)"
    have "?m = (''? '' @ owner @ ''/'' @ repo @ '' - HTTP '') @ str_int (status_code resp)"
      by simp
    then have "contains (str_int (status_code resp)) ?m"
      by (simp only: contains_suffix)
    moreover have "fst (check_repo self net u) =
          Inr \<lparr>url = u, status = ''ERROR'', message = ?m,
               private' = None, archived = None, stars = None\<rparr>"
      using a by (simp add: parsed probe_response classify_other)
    ultimately show "\<exists>m. fst (check_repo self net u) =
          Inr \<lparr>url = u, status = ''ERROR'', message = m,
               private' = None, archived = None, stars = None\<rparr> \<and>
          contains (str_int (status_code resp)) m"
      by blast
  qed
  have ne: "\<forall>t. net (api_request self owner repo) = Inl (RequestException t) \<longrightarrow>
       (\<exists>m. fst (check_repo self net u) =
          Inr \<lparr>url = u, status = ''ERROR'', message = m,
               private' = None, archived = None, stars = None\<rparr> \<and>
          contains t m)"
  proof (intro allI impI)
    fix t
    assume a: "net (api_request self owner repo) = Inl (RequestException t)"
    let ?m = "ballot_x @ '' '' @ owner @ ''/'' @ repo @ '' - Network error: '' @ t"
    have "?m = (ballot_x @ '' '' @ owner @ ''/'' @ repo @ '' - Network error: '') @ t"
      by simp
    then have "contains t ?m"
      by (simp only: contains_suffix)
    moreover have "fst (check_repo self net u) =
          Inr \<lparr>url = u, status = ''ERROR'', message = ?m,
               private' = None, archived = None, stars = None\<rparr>"
      using a by (simp add: parsed probe_raises)
    ultimately show "\<exists>m. fst (check_repo self net u) =
          Inr \<lparr>url = u, status = ''ERROR'', message = m,
               private' = None, archived = None, stars = None\<rparr> \<and>
          contains t m"
      by blast
  qed
  have jr: "\<forall>resp t. net (api_request self owner repo) = Inr resp \<and> status_code resp = 200 \<and>
         json resp = Inl (RequestException t) \<longrightarrow>
       (\<exists>m. fst (check_repo self net u) =
          Inr \<lparr>url = u, status = ''ERROR'', message = m,
               private' = None, archived = None, stars = None\<rparr> \<and>
          contains t m)"
  proof (intro allI impI)
    fix resp t
    assume a: "net (api_request self owner repo) = Inr resp \<and> status_code resp = 200 \<and>
         json resp = Inl (RequestException t)"
    let ?m = "ballot_x @ '' '' @ owner @ ''/'' @ repo @ '' - Network error: '' @ t"
    have "?m = (ballot_x @ '' '' @ owner @ ''/'' @ repo @ '' - Network error: '') @ t"
      by simp
    then have "contains t ?m"
      by (simp only: contains_suffix)
    moreover have "classify u owner repo resp = Inl (RequestException t)"
      using a by (simp add: classify_def)
    then have "fst (check_repo self net u) =
          Inr \<lparr>url = u, status = ''ERROR'', message = ?m,
               private' = None, archived = None, stars = None\<rparr>"
      using a by (simp add: parsed probe_response)
    ultimately show "\<exists>m. fst (check_repo self net u) =
          Inr \<lparr>url = u, status = ''ERROR'', message = m,
               private' = None, archived = None, stars = None\<rparr> \<and>
          contains t m"
      by blast
  qed
  have je: "\<forall>resp e. net (api_request self owner repo) = Inr resp \<and> status_code resp = 200 \<and>
         json resp = Inl e \<and> \<not> caught e \<longrightarrow>
       fst (check_repo self net u) = Inl e"
  proof (intro allI impI)
    fix resp e
    assume a: "net (api_request self owner repo) = Inr resp \<and> status_code resp = 200 \<and>
         json resp = Inl e \<and> \<not> caught e"
    then have "classify u owner repo resp = Inl e"
      by (simp add: classify_def)
    moreover from a have "except_clause u owner repo e = Inl e"
      by (cases e) simp_all
    ultimately show "fst (check_repo self net u) = Inl e"
      using a by (simp add: parsed probe_response)
  qed
  have jv: "\<forall>resp v. net (api_request self owner repo) = Inr resp \<and> status_code resp = 200 \<and>
         json resp = Inr v \<and> \<not> is_dict v \<longrightarrow>
       fst (check_repo self net u) =
         Inl (AttributeError ([CHR 0x27] @ type_name v @ [CHR 0x27] @
           '' object has no attribute '' @ [CHR 0x27] @ ''get'' @ [CHR 0x27]))"
  proof (intro allI impI)
    fix resp v
    assume a: "net (api_request self owner repo) = Inr resp \<and> status_code resp = 200 \<and>
         json resp = Inr v \<and> \<not> is_dict v"
    let ?e = "AttributeError ([CHR 0x27] @ type_name v @ [CHR 0x27] @
           '' object has no attribute '' @ [CHR 0x27] @ ''get'' @ [CHR 0x27])"
    from a have "json_get v ''private'' (JBool False) = Inl ?e"
      by (cases v) simp_all
    with a have "classify u owner repo resp = Inl ?e"
      by (simp add: classify_def)
    then show "fst (check_repo self net u) = Inl ?e"
      using a by (simp add: parsed probe_response)
  qed
  from ok nf fb er ne jr je jv show ?thesis by (intro conjI)
qed

text \<open>The theorem at \<open>https://github.com/golang/go\<close>: a 200 response with an object
  that has only the key \<open>archived\<close>, and a response with status 418.\<close>

theorem check_repo_classifies_response_witness:
  "fst (check_repo (init None 10)
      (\<lambda>rq. Inr \<lparr>status_code = 200, json = Inr (JObj [(''archived'', JBool True)])\<rparr>)
      ''https://github.com/golang/go'') =
     Inr \<lparr>url = ''https://github.com/golang/go'', status = ''EXISTS'',
          message = check_mark @ '' golang/go'',
          private' = Some (JBool False), archived = Some (JBool True), stars = Some (JNum 0)\<rparr> \<and>
   (\<exists>m. fst (check_repo (init None 10) (\<lambda>rq. Inr \<lparr>status_code = 418, json = Inr JNull\<rparr>)
        ''https://github.com/golang/go'') =
      Inr \<lparr>url = ''https://github.com/golang/go'', status = ''ERROR'', message = m,
           private' = None, archived = None, stars = None\<rparr> \<and> contains ''418'' m)"
proof -
  have p: "extract_repo_info ''https://github.com/golang/go'' = (Some ''golang'', Some ''go'')"
    by code_simp
  have n: "''golang'' \<noteq> []" "''go'' \<noteq> []" by simp_all
  have s: "str_int 418 = ''418''" by code_simp
  note c1 = check_repo_classifies_response [OF p n, of _ "init None 10"]
  have "fst (check_repo (init None 10)
      (\<lambda>rq. Inr \<lparr>status_code = 200, json = Inr (JObj [(''archived'', JBool True)])\<rparr>)
      ''https://github.com/golang/go'') =
     Inr \<lparr>url = ''https://github.com/golang/go'', status = ''EXISTS'',
          message = check_mark @ '' golang/go'',
          private' = Some (JBool False), archived = Some (JBool True), stars = Some (JNum 0)\<rparr>"
    using c1 [of "\<lambda>rq. Inr \<lparr>status_code = 200, json = Inr (JObj [(''archived'', JBool True)])\<rparr>"]
    by (simp add: dict_get_def)
  moreover have "\<exists>m. fst (check_repo (init None 10) (\<lambda>rq. Inr \<lparr>status_code = 418, json = Inr JNull\<rparr>)
        ''https://github.com/golang/go'') =
      Inr \<lparr>url = ''https://github.com/golang/go'', status = ''ERROR'', message = m,
           private' = None, archived = None, stars = None\<rparr> \<and> contains ''418'' m"
    using c1 [of "\<lambda>rq. Inr \<lparr>status_code = 418, json = Inr JNull\<rparr>"] s
    by simp
  ultimately show ?thesis by (rule conjI)
qed

text \<open>
  C1 as stated fails for status 200: for \<open>https://github.com/golang/go\<close> and a 200
  response on which \<open>json()\<close> raises the \<open>RequestException\<close> of a body that is not
  JSON, the result is \<open>ERROR\<close>, not \<open>EXISTS\<close>; and for a 200 response whose body is
  the JSON string \<open>"ok"\<close> there is no result at all.
\<close>

theorem check_repo_200_without_object_body:
  "fst (check_repo (init None 10)
      (\<lambda>rq. Inr \<lparr>status_code = 200,
         json = Inl (RequestException ''Expecting value: line 1 column 1 (char 0)'')\<rparr>)
      ''https://github.com/golang/go'') =
     Inr \<lparr>url = ''https://github.com/golang/go'', status = ''ERROR'',
          message = ballot_x @
            '' golang/go - Network error: Expecting value: line 1 column 1 (char 0)'',
          private' = None, archived = None, stars = None\<rparr> \<and>
   fst (check_repo (init None 10)
      (\<lambda>rq. Inr \<lparr>status_code = 200, json = Inr (JStr ''ok'')\<rparr>)
      ''https://github.com/golang/go'') =
     Inl (AttributeError ([CHR 0x27] @ ''str'' @ [CHR 0x27] @ '' object has no attribute '' @
       [CHR 0x27] @ ''get'' @ [CHR 0x27]))"
  by code_simp

text \<open>
  C2. The parser is to return the owner and the repository of a URL of the shape
  \<open>github.com/<owner>/<repo>\<close>, with a trailing \<open>.git\<close> removed from the repository.
  \<open>rstrip('.git')\<close> removes instead every trailing character that is one of \<open>.\<close>,
  \<open>g\<close>, \<open>i\<close>, \<open>t\<close>: for the repository \<open>pytest\<close> of \<open>pytest-dev\<close> the parser
  returns \<open>pytes\<close>.
\<close>

theorem extract_repo_info_rstrip_char_set:
  "extract_repo_info ''https://github.com/pytest-dev/pytest'' = (Some ''pytest-dev'', Some ''pytes'')"
  by code_simp

text \<open>
  C3, as the code has it. When the parser returns an owner or a repository that is
  \<open>None\<close> or empty, \<open>check_repo\<close> returns the \<open>INVALID_URL\<close> result and makes no
  network call. Every result that \<open>check_repo\<close> returns has one of the five status
  values. \<open>check_repo\<close> returns a result exactly when it makes no call or the outcome
  of its call is \<open>answered\<close>; otherwise an exception that is not a
  \<open>RequestException\<close> leaves it and there is no result.
\<close>

theorem check_repo_result_or_exception:
  "(falsy (fst (extract_repo_info u)) \<or> falsy (snd (extract_repo_info u)) \<longrightarrow>
      check_repo self net u =
        (Inr \<lparr>url = u, status = ''INVALID_URL'', message = ''Could not parse GitHub URL'',
              private' = None, archived = None, stars = None\<rparr>, [])) \<and>
   (\<forall>r. fst (check_repo self net u) = Inr r \<longrightarrow>
      status r \<in> {''INVALID_URL'', ''EXISTS'', ''NOT_FOUND'', ''FORBIDDEN'', ''ERROR''}) \<and>
   ((\<exists>r. fst (check_repo self net u) = Inr r) =
      (case request_of self u of None \<Rightarrow> True | Some rq \<Rightarrow> answered (net rq)))"
proof (intro conjI)
  show "falsy (fst (extract_repo_info u)) \<or> falsy (snd (extract_repo_info u)) \<longrightarrow>
      check_repo self net u =
        (Inr \<lparr>url = u, status = ''INVALID_URL'', message = ''Could not parse GitHub URL'',
              private' = None, archived = None, stars = None\<rparr>, [])"
    using check_repo_unparsed by blast
next
  show "\<forall>r. fst (check_repo self net u) = Inr r \<longrightarrow>
      status r \<in> {''INVALID_URL'', ''EXISTS'', ''NOT_FOUND'', ''FORBIDDEN'', ''ERROR''}"
    using check_repo_Inr [of self net u] by (simp add: status_kinds_def)
next
  show "(\<exists>r. fst (check_repo self net u) = Inr r) =
      (case request_of self u of None \<Rightarrow> True | Some rq \<Rightarrow> answered (net rq))"
    by (rule check_repo_returns)
qed

text \<open>The theorem at \<open>not-a-url\<close>, for which no call is made, and at
  \<open>github.com/golang/go\<close> with a 200 response that carries an object.\<close>

theorem check_repo_result_or_exception_witness:
  "check_repo (init None 10) (net_example 0) ''not-a-url'' =
     (Inr \<lparr>url = ''not-a-url'', status = ''INVALID_URL'', message = ''Could not parse GitHub URL'',
           private' = None, archived = None, stars = None\<rparr>, []) \<and>
   (\<exists>r. fst (check_repo (init None 10) (net_example 0) ''github.com/golang/go'') = Inr r)"
proof -
  have a: "falsy (fst (extract_repo_info ''not-a-url''))" by code_simp
  have b: "(case request_of (init None 10) ''github.com/golang/go'' of None \<Rightarrow> True
     | Some rq \<Rightarrow> answered (net_example 0 rq))"
    by code_simp
  from a check_repo_result_or_exception [of "''not-a-url''" "init None 10" "net_example 0"]
  have "check_repo (init None 10) (net_example 0) ''not-a-url'' =
     (Inr \<lparr>url = ''not-a-url'', status = ''INVALID_URL'', message = ''Could not parse GitHub URL'',
           private' = None, archived = None, stars = None\<rparr>, [])"
    by blast
  moreover from b check_repo_result_or_exception [of "''github.com/golang/go''" "init None 10" "net_example 0"]
  have "\<exists>r. fst (check_repo (init None 10) (net_example 0) ''github.com/golang/go'') = Inr r"
    by blast
  ultimately show ?thesis by blast
qed

text \<open>
  C3 as stated fails: for \<open>https://github.com/golang/go\<close> and a 200 response whose JSON
  body is the array \<open>[]\<close>, \<open>repo_data.get\<close> raises \<open>AttributeError\<close>, which the
  \<open>except\<close> clause does not catch, and \<open>check_repo\<close> produces no result.
\<close>

theorem check_repo_raises_on_json_array:
  "\<not> (\<exists>r. fst (check_repo (init None 10)
        (\<lambda>rq. Inr \<lparr>status_code = 200, json = Inr (JArr [])\<rparr>) ''https://github.com/golang/go'') = Inr r)"
proof -
  have "fst (check_repo (init None 10)
        (\<lambda>rq. Inr \<lparr>status_code = 200, json = Inr (JArr [])\<rparr>) ''https://github.com/golang/go'') =
     Inl (AttributeError ([CHR 0x27] @ ''list'' @ [CHR 0x27] @ '' object has no attribute '' @
       [CHR 0x27] @ ''get'' @ [CHR 0x27]))"
    by code_simp
  then show ?thesis by simp
qed

text \<open>
  C4, as the code has it. With a \<open>max_workers\<close> that is not positive the constructor of
  the executor raises \<open>ValueError\<close>: nothing is returned and the callback is not called.
  With a positive \<open>max_workers\<close>, for a batch of \<open>K\<close> URLs in which every call of
  \<open>check_repo\<close> returns a result, and for every completion order,
  \<open>check_repos_batch\<close> returns exactly \<open>K\<close> results, which are the results of the
  calls in completion order, and has called the progress callback exactly \<open>K\<close> times:
  with the counts \<open>1, ..., K\<close> in this order, each with the total \<open>K\<close> and with the
  result of the same position.
\<close>

theorem check_repos_batch_counts:
  assumes "completion_order order (length urls)"
  shows "(max_workers self \<le> 0 \<longrightarrow>
      check_repos_batch self net order urls (Some progress) st =
        (Inl (ValueError ''max_workers must be greater than 0''), st)) \<and>
   (0 < max_workers self \<and>
    (\<forall>i<length urls. \<exists>r. fst (check_repo self (net i) (urls ! i)) = Inr r) \<longrightarrow>
      (\<exists>results.
         check_repos_batch self net order urls (Some progress) st =
           (Inr results,
            fold (\<lambda>(k, r). progress k (length urls) r) (zip [1..<Suc (length urls)] results) st) \<and>
         length results = length urls \<and>
         map Inr results = map (\<lambda>i. fst (check_repo self (net i) (urls ! i))) order))"
proof (intro conjI impI)
  assume "max_workers self \<le> 0"
  then show "check_repos_batch self net order urls (Some progress) st =
        (Inl (ValueError ''max_workers must be greater than 0''), st)"
    by (rule batch_no_workers)
next
  assume a: "0 < max_workers self \<and>
    (\<forall>i<length urls. \<exists>r. fst (check_repo self (net i) (urls ! i)) = Inr r)"
  then obtain results
    where r: "fst (check_repos_batch self net order urls (Some progress) st) = Inr results"
    using batch_returns_iff [OF assms, of self net "Some progress" st] by blast
  have "check_repos_batch self net order urls (Some progress) st =
       (Inr results,
        fold (\<lambda>(k, r). progress k (length urls) r) (zip [1..<Suc (length urls)] results) st)"
    using batch_all [OF assms r] by simp
  moreover have "length results = length urls"
    using assms r by (rule batch_length)
  moreover have "map Inr results = map (\<lambda>i. fst (check_repo self (net i) (urls ! i))) order"
    using r by (simp add: batch_fst [OF assms])
  ultimately show "\<exists>results.
         check_repos_batch self net order urls (Some progress) st =
           (Inr results,
            fold (\<lambda>(k, r). progress k (length urls) r) (zip [1..<Suc (length urls)] results) st) \<and>
         length results = length urls \<and>
         map Inr results = map (\<lambda>i. fst (check_repo self (net i) (urls ! i))) order"
    by blast
qed

text \<open>The theorem at the three example URLs with ten workers, completed in the order
  third, first, second, with a callback that records the count and the total of each
  call; and with no worker.\<close>

theorem check_repos_batch_counts_witness:
  "(\<exists>results.
     check_repos_batch (init None 10) net_example [2, 0, 1] urls_example
         (Some (\<lambda>completed ntotal result calls. calls @ [(completed, ntotal)])) [] =
       (Inr results, [(1, 3), (2, 3), (3, 3)]) \<and>
     length results = 3 \<and>
     map url results =
       [''not-a-url'', ''github.com/golang/go'', ''github.com/doesnotexist404xyz/repo'']) \<and>
   check_repos_batch (init None 0) net_example [2, 0, 1] urls_example
       (Some (\<lambda>completed ntotal result calls. calls @ [(completed, ntotal)])) [] =
     (Inl (ValueError ''max_workers must be greater than 0''), [])"
proof -
  let ?cb = "\<lambda>(completed :: nat) (ntotal :: nat) (result :: probe_result) calls.
      calls @ [(completed, ntotal)]"
  have o: "completion_order [2, 0, 1] (length urls_example)" by code_simp
  have w: "0 < max_workers (init None 10)" by (simp add: init_def)
  have w0: "max_workers (init None 0) \<le> 0" by (simp add: init_def)
  have "\<exists>r. fst (check_repo (init None 10) (net_example i) (urls_example ! i)) = Inr r"
    if "i < length urls_example" for i
  proof -
    from that have "i = 0 \<or> i = 1 \<or> i = 2" by (auto simp: urls_example_def)
    moreover have "\<exists>r. fst (check_repo (init None 10) (net_example 0) (urls_example ! 0)) = Inr r"
      by (simp only: check_repo_returns) code_simp
    moreover have "\<exists>r. fst (check_repo (init None 10) (net_example 1) (urls_example ! 1)) = Inr r"
      by (simp only: check_repo_returns) code_simp
    moreover have "\<exists>r. fst (check_repo (init None 10) (net_example 2) (urls_example ! 2)) = Inr r"
      by (simp only: check_repo_returns) code_simp
    ultimately show ?thesis by blast
  qed
  then have a: "\<forall>i<length urls_example.
      \<exists>r. fst (check_repo (init None 10) (net_example i) (urls_example ! i)) = Inr r"
    by blast
  have l: "length urls_example = 3" by (simp add: urls_example_def)
  note inst = check_repos_batch_counts [OF o, of _ net_example ?cb "[]"]
  from inst [of "init None 10"] w a
  obtain results where r: "check_repos_batch (init None 10) net_example [2, 0, 1] urls_example
         (Some ?cb) [] =
       (Inr results,
        fold (\<lambda>(k, r). ?cb k (length urls_example) r)
          (zip [1..<Suc (length urls_example)] results) [])"
    and n: "length results = length urls_example"
    by blast
  from r have f: "fst (check_repos_batch (init None 10) net_example [2, 0, 1] urls_example
         (Some ?cb) []) = Inr results"
    by simp
  have u: "map url results = map (\<lambda>i. urls_example ! i) [2, 0, 1]"
    using o f by (rule batch_urls)
  from n l obtain r1 r2 r3 where "results = [r1, r2, r3]"
    by (auto simp: length_Suc_conv numeral_3_eq_3)
  then have "fold (\<lambda>(k, r). ?cb k (length urls_example) r)
          (zip [1..<Suc (length urls_example)] results) [] = [(1, 3), (2, 3), (3, 3)]"
    by (simp add: l upt_conv_Cons del: upt_Suc)
  with r n l u have 1: "\<exists>results.
     check_repos_batch (init None 10) net_example [2, 0, 1] urls_example (Some ?cb) [] =
       (Inr results, [(1, 3), (2, 3), (3, 3)]) \<and>
     length results = 3 \<and>
     map url results =
       [''not-a-url'', ''github.com/golang/go'', ''github.com/doesnotexist404xyz/repo'']"
    by (simp add: urls_example_def)
  from inst [of "init None 0"] w0
  have 2: "check_repos_batch (init None 0) net_example [2, 0, 1] urls_example (Some ?cb) [] =
     (Inl (ValueError ''max_workers must be greater than 0''), [])"
    by blast
  from 1 2 show ?thesis by (rule conjI)
qed

text \<open>
  C4 as stated fails: for a batch of one URL whose call is answered with status 200 and
  the JSON body \<open>null\<close>, \<open>future.result()\<close> raises the \<open>AttributeError\<close> again,
  \<open>check_repos_batch\<close> returns no result and the callback is never called.
\<close>

theorem check_repos_batch_aborts_on_null_body:
  "check_repos_batch (init None 10) (\<lambda>i rq. Inr \<lparr>status_code = 200, json = Inr JNull\<rparr>) [0]
     [''https://github.com/golang/go''] (Some progress_callback) [] =
   (Inl (AttributeError ([CHR 0x27] @ ''NoneType'' @ [CHR 0x27] @ '' object has no attribute '' @
      [CHR 0x27] @ ''get'' @ [CHR 0x27])), [])"
  by code_simp

text \<open>
  C5, as the code has it, for a positive \<open>max_workers\<close> and every completion order. In
  a batch in which the outcome of every call that is made is \<open>answered\<close>,
  \<open>check_repos_batch\<close> returns with one result per URL, and the result of every call
  of \<open>check_repo\<close> is among them. In particular a probe whose \<open>session.get\<close> raised a
  \<open>RequestException\<close>, or whose \<open>response.json()\<close> raised one on a 200 response, has
  its own result in the list, with the URL of that probe, the status \<open>ERROR\<close> and the
  text of the exception in the message. In a batch in which the outcome of some call is
  not \<open>answered\<close>, \<open>check_repos_batch\<close> returns no results: it raises an exception
  that is not a \<open>RequestException\<close> and that left one of the calls of \<open>check_repo\<close>.
\<close>

theorem request_failures_are_captured:
  assumes "completion_order order (length urls)" and "0 < max_workers self"
  shows "((\<forall>i<length urls. \<forall>rq. request_of self (urls ! i) = Some rq \<longrightarrow> answered (net i rq)) \<longrightarrow>
      (\<exists>results.
         fst (check_repos_batch self net order urls cb st) = Inr results \<and>
         length results = length urls \<and>
         (\<forall>i<length urls. \<exists>r \<in> set results. fst (check_repo self (net i) (urls ! i)) = Inr r) \<and>
         (\<forall>i<length urls. \<forall>rq t.
            request_of self (urls ! i) = Some rq \<and>
            (net i rq = Inl (RequestException t) \<or>
             (\<exists>resp. net i rq = Inr resp \<and> status_code resp = 200 \<and>
                json resp = Inl (RequestException t))) \<longrightarrow>
            (\<exists>r \<in> set results. fst (check_repo self (net i) (urls ! i)) = Inr r \<and>
               url r = urls ! i \<and> status r = ''ERROR'' \<and> contains t (message r))))) \<and>
     ((\<exists>i<length urls. \<exists>rq. request_of self (urls ! i) = Some rq \<and> \<not> answered (net i rq)) \<longrightarrow>
      (\<exists>e. fst (check_repos_batch self net order urls cb st) = Inl e \<and> \<not> caught e \<and>
         (\<exists>i<length urls. fst (check_repo self (net i) (urls ! i)) = Inl e)))"
proof (intro conjI impI)
  assume ans: "\<forall>i<length urls. \<forall>rq. request_of self (urls ! i) = Some rq \<longrightarrow> answered (net i rq)"
  have ok: "\<forall>i<length urls. \<exists>r. fst (check_repo self (net i) (urls ! i)) = Inr r"
  proof (intro allI impI)
    fix i assume "i < length urls"
    with ans have "case request_of self (urls ! i) of None \<Rightarrow> True
        | Some rq \<Rightarrow> answered (net i rq)"
      by (auto split: option.splits)
    then show "\<exists>r. fst (check_repo self (net i) (urls ! i)) = Inr r"
      by (simp only: check_repo_returns)
  qed
  with assms(2) obtain results
    where r: "fst (check_repos_batch self net order urls cb st) = Inr results"
    using batch_returns_iff [OF assms(1), of self net cb st] by blast
  have len: "length results = length urls" using assms(1) r by (rule batch_length)
  have res: "results = map (\<lambda>i. projr (fst (check_repo self (net i) (urls ! i)))) order"
    using assms(1) r by (rule batch_results)
  have mem: "\<exists>x \<in> set results. fst (check_repo self (net i) (urls ! i)) = Inr x"
    if "i < length urls" for i
  proof -
    from that have "i \<in> set order" using assms(1) by (simp add: completion_order_def)
    then have "projr (fst (check_repo self (net i) (urls ! i))) \<in> set results"
      by (subst res) simp
    moreover from ok that obtain x where "fst (check_repo self (net i) (urls ! i)) = Inr x"
      by blast
    ultimately show ?thesis by auto
  qed
  have err: "\<exists>x \<in> set results. fst (check_repo self (net i) (urls ! i)) = Inr x \<and>
           url x = urls ! i \<and> status x = ''ERROR'' \<and> contains t (message x)"
    if i: "i < length urls" and q: "request_of self (urls ! i) = Some rq"
      and f: "net i rq = Inl (RequestException t) \<or>
             (\<exists>resp. net i rq = Inr resp \<and> status_code resp = 200 \<and>
                json resp = Inl (RequestException t))" for i rq t
  proof -
    have "\<exists>y. fst (check_repo self (net i) (urls ! i)) = Inr y \<and> url y = urls ! i \<and>
        status y = ''ERROR'' \<and> contains t (message y)"
      using f
    proof
      assume "net i rq = Inl (RequestException t)"
      with q show ?thesis
        by (rule check_repo_request_failure [of self "urls ! i" rq "net i" t])
    next
      assume "\<exists>resp. net i rq = Inr resp \<and> status_code resp = 200 \<and>
                json resp = Inl (RequestException t)"
      then obtain resp where "net i rq = Inr resp" and "status_code resp = 200"
        and "json resp = Inl (RequestException t)"
        by blast
      with q show ?thesis
        by (rule check_repo_json_failure [of self "urls ! i" rq "net i" resp t])
    qed
    then obtain y where y: "fst (check_repo self (net i) (urls ! i)) = Inr y" "url y = urls ! i"
        "status y = ''ERROR''" "contains t (message y)"
      by blast
    from mem [OF i] obtain x where "x \<in> set results"
      and "fst (check_repo self (net i) (urls ! i)) = Inr x" by blast
    with y show ?thesis by auto
  qed
  from r len mem err show "\<exists>results.
         fst (check_repos_batch self net order urls cb st) = Inr results \<and>
         length results = length urls \<and>
         (\<forall>i<length urls. \<exists>r \<in> set results. fst (check_repo self (net i) (urls ! i)) = Inr r) \<and>
         (\<forall>i<length urls. \<forall>rq t.
            request_of self (urls ! i) = Some rq \<and>
            (net i rq = Inl (RequestException t) \<or>
             (\<exists>resp. net i rq = Inr resp \<and> status_code resp = 200 \<and>
                json resp = Inl (RequestException t))) \<longrightarrow>
            (\<exists>r \<in> set results. fst (check_repo self (net i) (urls ! i)) = Inr r \<and>
               url r = urls ! i \<and> status r = ''ERROR'' \<and> contains t (message r)))"
    by blast
next
  assume "\<exists>i<length urls. \<exists>rq. request_of self (urls ! i) = Some rq \<and> \<not> answered (net i rq)"
  then obtain i rq where i: "i < length urls" and q: "request_of self (urls ! i) = Some rq"
    and n: "\<not> answered (net i rq)"
    by blast
  from q n have "\<not> (case request_of self (urls ! i) of None \<Rightarrow> True
      | Some rq \<Rightarrow> answered (net i rq))"
    by simp
  then have "\<not> (\<exists>r. fst (check_repo self (net i) (urls ! i)) = Inr r)"
    using check_repo_returns [of self "net i" "urls ! i"] by simp
  with i have "\<not> (\<forall>i<length urls. \<exists>r. fst (check_repo self (net i) (urls ! i)) = Inr r)"
    by blast
  then have "\<not> (\<exists>results. fst (check_repos_batch self net order urls cb st) = Inr results)"
    using batch_returns_iff [OF assms(1), of self net cb st] by simp
  then obtain e where e: "fst (check_repos_batch self net order urls cb st) = Inl e"
    by (cases "fst (check_repos_batch self net order urls cb st)") auto
  then have "Inl e \<in> set (as_completed order (submit_all self net urls))"
    using reap_raises [of "length urls" cb "as_completed order (submit_all self net urls)" 0 "[]" st e]
    by (simp add: batch_reap [OF assms(2)])
  then have "Inl e \<in> set (map (\<lambda>i. fst (check_repo self (net i) (urls ! i))) order)"
    by (simp only: as_completed_submit_all [OF assms(1)])
  then obtain j where j: "j \<in> set order" and x: "fst (check_repo self (net j) (urls ! j)) = Inl e"
    by auto
  from j have "j < length urls" using assms(1) by (simp add: completion_order_def)
  moreover from x have "\<not> caught e" by (rule check_repo_Inl)
  ultimately show "\<exists>e. fst (check_repos_batch self net order urls cb st) = Inl e \<and> \<not> caught e \<and>
         (\<exists>i<length urls. fst (check_repo self (net i) (urls ! i)) = Inl e)"
    using e x by blast
qed

text \<open>The theorem at two URLs of which the second fails with a time-out and completes
  first.\<close>

theorem request_failures_are_captured_witness:
  "\<exists>results.
     fst (check_repos_batch (init None 10) net_timeout [1, 0] urls_pair (Some progress_callback) []) =
       Inr results \<and>
     length results = 2 \<and>
     (\<exists>r \<in> set results. url r = ''https://github.com/torvalds/linux'' \<and> status r = ''ERROR'' \<and>
        contains ''Read timed out.'' (message r))"
proof -
  have o: "completion_order [1, 0] (length urls_pair)" by code_simp
  have q0: "request_of (init None 10) (urls_pair ! 0) =
      Some \<lparr>req_url = ''https://api.github.com/repos/golang/go'', req_headers = [],
            req_timeout = 10\<rparr>"
    by code_simp
  have q1: "request_of (init None 10) (urls_pair ! 1) =
      Some \<lparr>req_url = ''https://api.github.com/repos/torvalds/linux'', req_headers = [],
            req_timeout = 10\<rparr>"
    by code_simp
  have a0: "answered (net_timeout 0 \<lparr>req_url = ''https://api.github.com/repos/golang/go'',
      req_headers = [], req_timeout = 10\<rparr>)"
    by code_simp
  have n1: "net_timeout 1 \<lparr>req_url = ''https://api.github.com/repos/torvalds/linux'',
      req_headers = [], req_timeout = 10\<rparr> = Inl (RequestException ''Read timed out.'')"
    by code_simp
  have a1: "answered (net_timeout 1 \<lparr>req_url = ''https://api.github.com/repos/torvalds/linux'',
      req_headers = [], req_timeout = 10\<rparr>)"
    by code_simp
  have l: "length urls_pair = 2" by (simp add: urls_pair_def)
  have a: "\<forall>i<length urls_pair. \<forall>rq. request_of (init None 10) (urls_pair ! i) = Some rq \<longrightarrow>
      answered (net_timeout i rq)"
  proof (intro allI impI)
    fix i rq
    assume "i < length urls_pair" and rq: "request_of (init None 10) (urls_pair ! i) = Some rq"
    then have "i = 0 \<or> i = 1" using l by auto
    then show "answered (net_timeout i rq)"
      using rq q0 q1 a0 a1 by auto
  qed
  have w: "0 < max_workers (init None 10)" by (simp add: init_def)
  from request_failures_are_captured [OF o w, of net_timeout "Some progress_callback" "[]"] a
  obtain results where r: "fst (check_repos_batch (init None 10) net_timeout [1, 0] urls_pair
        (Some progress_callback) []) = Inr results"
    and n: "length results = length urls_pair"
    and e: "\<forall>i<length urls_pair. \<forall>rq t.
        request_of (init None 10) (urls_pair ! i) = Some rq \<and>
        (net_timeout i rq = Inl (RequestException t) \<or>
         (\<exists>resp. net_timeout i rq = Inr resp \<and> status_code resp = 200 \<and>
            json resp = Inl (RequestException t))) \<longrightarrow>
        (\<exists>r \<in> set results. fst (check_repo (init None 10) (net_timeout i) (urls_pair ! i)) = Inr r \<and>
           url r = urls_pair ! i \<and> status r = ''ERROR'' \<and> contains t (message r))"
    by blast
  have "\<exists>r \<in> set results. fst (check_repo (init None 10) (net_timeout 1) (urls_pair ! 1)) = Inr r \<and>
           url r = urls_pair ! 1 \<and> status r = ''ERROR'' \<and> contains ''Read timed out.'' (message r)"
  proof -
    have "(1 :: nat) < length urls_pair" using l by simp
    with e q1 n1 show ?thesis by blast
  qed
  moreover have "urls_pair ! 1 = ''https://github.com/torvalds/linux''"
    by (simp add: urls_pair_def)
  ultimately have "\<exists>r \<in> set results. url r = ''https://github.com/torvalds/linux'' \<and>
      status r = ''ERROR'' \<and> contains ''Read timed out.'' (message r)"
    by auto
  with r n l show ?thesis by auto
qed

text \<open>
  C5 as stated fails: an exception that is not a \<open>RequestException\<close> is not captured
  in a result and ends the batch. With two URLs, the first answered with 404 and
  completed first, the second answered with status 200 and the JSON body \<open>[]\<close>, the
  batch raises \<open>AttributeError\<close> after one progress line and returns no results, not
  even that of the first URL.
\<close>

theorem check_repos_batch_aborts_on_array_body:
  "check_repos_batch (init None 10) net_array [0, 1]
     [''github.com/golang/go'', ''https://github.com/torvalds/linux''] (Some progress_callback) [] =
   (Inl (AttributeError ([CHR 0x27] @ ''list'' @ [CHR 0x27] @ '' object has no attribute '' @
      [CHR 0x27] @ ''get'' @ [CHR 0x27])),
    [''[1/2] '' @ ballot_x @ '' golang/go - Repository not found''])"
  by code_simp

text \<open>
  C6. The summary loop of \<open>main\<close>, started with an empty dictionary and an empty
  list, builds from the list of results: a dictionary whose keys are exactly the status
  values that occur in the results, each once, with the number of results of that
  status as its value; the values sum to the number of results, which is the number of
  input URLs when the results are those of a batch; and the list of dead links is the
  list of the URLs of the results with status \<open>NOT_FOUND\<close> or \<open>ERROR\<close>, in the
  order of the results.
\<close>

theorem summarize_builds_report:
  assumes "summarize results [] [] = (status_counts, dead_links)"
  shows "fst ` set status_counts = status ` set results \<and>
     distinct (map fst status_counts) \<and>
     (\<forall>s. map_of status_counts s =
        (if s \<in> status ` set results
         then Some (length (filter (\<lambda>r. status r = s) results)) else None)) \<and>
     sum_list (map snd status_counts) = length results \<and>
     dead_links = map url (filter (\<lambda>r. status r = ''NOT_FOUND'' \<or> status r = ''ERROR'') results) \<and>
     (\<forall>self net order urls cb st.
        completion_order order (length urls) \<and>
        fst (check_repos_batch self net order urls cb st) = Inr results \<longrightarrow>
        sum_list (map snd status_counts) = length urls)"
proof -
  from assms have c: "status_counts = fst (summarize results [] [])"
    and d: "dead_links = snd (summarize results [] [])"
    by simp_all
  have 1: "fst ` set status_counts = status ` set results"
    using summarize_keys [of results "[]" "[]"] by (simp add: c)
  have 2: "distinct (map fst status_counts)"
    unfolding c by (rule summarize_distinct) simp
  have 3: "\<forall>s. map_of status_counts s =
        (if s \<in> status ` set results
         then Some (length (filter (\<lambda>r. status r = s) results)) else None)"
    unfolding c by (intro allI) (rule summarize_map_of)
  have 4: "sum_list (map snd status_counts) = length results"
    unfolding c by (simp add: summarize_sum)
  have 5: "dead_links = map url (filter (\<lambda>r. status r = ''NOT_FOUND'' \<or> status r = ''ERROR'') results)"
    unfolding d by (simp add: summarize_dead_links dead_def [abs_def])
  have 6: "\<forall>self net order urls cb st.
        completion_order order (length urls) \<and>
        fst (check_repos_batch self net order urls cb st) = Inr results \<longrightarrow>
        sum_list (map snd status_counts) = length urls"
    using 4 batch_length by metis
  from 1 2 3 4 5 6 show ?thesis by (intro conjI)
qed

text \<open>The theorem at the results of the example of the specification.\<close>

theorem summarize_builds_report_witness:
  "summarize results_example [] [] =
     ([(''INVALID_URL'', 1), (''EXISTS'', 1), (''NOT_FOUND'', 1)],
      [''github.com/doesnotexist404xyz/repo'']) \<and>
   sum_list (map snd [(''INVALID_URL'', 1 :: nat), (''EXISTS'', 1), (''NOT_FOUND'', 1)]) =
     length results_example"
proof -
  have e: "summarize results_example [] [] =
     ([(''INVALID_URL'', 1), (''EXISTS'', 1), (''NOT_FOUND'', 1)],
      [''github.com/doesnotexist404xyz/repo''])"
    by code_simp
  from summarize_builds_report [OF e] have
    "sum_list (map snd [(''INVALID_URL'', 1 :: nat), (''EXISTS'', 1), (''NOT_FOUND'', 1)]) =
       length results_example"
    by blast
  with e show ?thesis by (rule conjI)
qed




text \<open>
  C8, as the code has it. Two runs of the batch on the same URLs against the same
  network, with any two completion orders, either both return or both raise. When they
  return, the two summaries have the same count for every status and the same dead
  links with the same multiplicities; the order of the dead links follows the completion
  order of each run.
\<close>

theorem rerun_same_report_up_to_order:
  assumes "completion_order order1 (length urls)" and "completion_order order2 (length urls)"
  shows "((\<exists>r1. fst (check_repos_batch self net order1 urls cb1 st1) = Inr r1) =
          (\<exists>r2. fst (check_repos_batch self net order2 urls cb2 st2) = Inr r2)) \<and>
     (\<forall>r1 r2. fst (check_repos_batch self net order1 urls cb1 st1) = Inr r1 \<and>
        fst (check_repos_batch self net order2 urls cb2 st2) = Inr r2 \<longrightarrow>
        map_of (fst (summarize r1 [] [])) = map_of (fst (summarize r2 [] [])) \<and>
        mset (snd (summarize r1 [] [])) = mset (snd (summarize r2 [] [])))"
proof (intro conjI allI impI)
  show "(\<exists>r1. fst (check_repos_batch self net order1 urls cb1 st1) = Inr r1) =
          (\<exists>r2. fst (check_repos_batch self net order2 urls cb2 st2) = Inr r2)"
    by (simp only: batch_returns_iff [OF assms(1)] batch_returns_iff [OF assms(2)])
next
  fix r1 r2
  assume a: "fst (check_repos_batch self net order1 urls cb1 st1) = Inr r1 \<and>
        fst (check_repos_batch self net order2 urls cb2 st2) = Inr r2"
  let ?f = "\<lambda>i. projr (fst (check_repo self (net i) (urls ! i)))"
  from a have f1: "fst (check_repos_batch self net order1 urls cb1 st1) = Inr r1"
    and f2: "fst (check_repos_batch self net order2 urls cb2 st2) = Inr r2"
    by simp_all
  have "r1 = map ?f order1" using assms(1) f1 by (rule batch_results)
  moreover have "r2 = map ?f order2" using assms(2) f2 by (rule batch_results)
  ultimately have "r1 = map ?f order1" and "r2 = map ?f order2" by simp_all
  then have "mset r1 = image_mset ?f (mset order1)" and "mset r2 = image_mset ?f (mset order2)"
    by simp_all
  then have m: "mset r1 = mset r2"
    using completion_orders_mset [OF assms] by simp
  show "map_of (fst (summarize r1 [] [])) = map_of (fst (summarize r2 [] []))"
    using m by (rule summarize_counts_mset)
  show "mset (snd (summarize r1 [] [])) = mset (snd (summarize r2 [] []))"
    using m by (rule summarize_dead_mset)
qed

text \<open>The theorem at two URLs that are both answered with 404, completed in the two
  possible orders.\<close>

theorem rerun_same_report_up_to_order_witness:
  "map_of (fst (summarize (projr (fst (check_repos_batch (init None 10) net_all_404 [0, 1] urls_pair
       (Some progress_callback) []))) [] [])) =
   map_of (fst (summarize (projr (fst (check_repos_batch (init None 10) net_all_404 [1, 0] urls_pair
       (Some progress_callback) []))) [] [])) \<and>
   mset (snd (summarize (projr (fst (check_repos_batch (init None 10) net_all_404 [0, 1] urls_pair
       (Some progress_callback) []))) [] [])) =
   mset (snd (summarize (projr (fst (check_repos_batch (init None 10) net_all_404 [1, 0] urls_pair
       (Some progress_callback) []))) [] []))"
proof -
  have o1: "completion_order [0, 1] (length urls_pair)" by code_simp
  have o2: "completion_order [1, 0] (length urls_pair)" by code_simp
  have "case fst (check_repos_batch (init None 10) net_all_404 [0, 1] urls_pair
       (Some progress_callback) []) of Inl e \<Rightarrow> False | Inr r \<Rightarrow> True" by code_simp
  then obtain r1 where r1: "fst (check_repos_batch (init None 10) net_all_404 [0, 1] urls_pair
       (Some progress_callback) []) = Inr r1"
    by (auto split: sum.splits)
  have "case fst (check_repos_batch (init None 10) net_all_404 [1, 0] urls_pair
       (Some progress_callback) []) of Inl e \<Rightarrow> False | Inr r \<Rightarrow> True" by code_simp
  then obtain r2 where r2: "fst (check_repos_batch (init None 10) net_all_404 [1, 0] urls_pair
       (Some progress_callback) []) = Inr r2"
    by (auto split: sum.splits)
  from rerun_same_report_up_to_order [OF o1 o2, of "init None 10" net_all_404
      "Some progress_callback" "[]" "Some progress_callback" "[]"] r1 r2
  have "map_of (fst (summarize r1 [] [])) = map_of (fst (summarize r2 [] [])) \<and>
        mset (snd (summarize r1 [] [])) = mset (snd (summarize r2 [] []))"
    by blast
  then show ?thesis by (simp only: r1 r2 sum.sel)
qed

text \<open>
  C8 as stated fails: with the same two URLs and the same network, the dead-link list of
  the run in which the first URL completes first differs from that of the run in which
  the second completes first.
\<close>

theorem rerun_dead_links_differ:
  "(case fst (check_repos_batch (init None 10) net_all_404 [0, 1] urls_pair (Some progress_callback) [])
    of Inl e \<Rightarrow> [] | Inr results \<Rightarrow> snd (summarize results [] [])) =
     [''github.com/golang/go'', ''https://github.com/torvalds/linux''] \<and>
   (case fst (check_repos_batch (init None 10) net_all_404 [1, 0] urls_pair (Some progress_callback) [])
    of Inl e \<Rightarrow> [] | Inr results \<Rightarrow> snd (summarize results [] [])) =
     [''https://github.com/torvalds/linux'', ''github.com/golang/go'']"
  by (simp only: batch_404_forward batch_404_backward sum.case summarize_dead_links)
     (simp add: dead_def)

text \<open>
  C9. With further path segments after the repository only the second pattern matches
  and the parser is to return the first two segments. It does return a pair, not
  \<open>(None, None)\<close>, for every string that contains \<open>github.com/<seg1>/<seg2>\<close> with
  non-empty segments without a slash (\<open>extract_repo_info_accepts\<close>), but the
  repository is not always the second segment: for
  \<open>https://github.com/git/git/tree/master\<close> it is the empty string, which
  \<open>check_repo\<close> takes for a failed parse, because \<open>rstrip('.git')\<close> has removed all
  of \<open>git\<close>.
\<close>

theorem extract_repo_info_extra_segments_empty_repo:
  "extract_repo_info ''https://github.com/git/git/tree/master'' = (Some ''git'', Some '''')"
  by code_simp

text \<open>
  C10, as the code has it. Every result that \<open>check_repo\<close> returns for a URL has exactly
  that URL in its \<open>url\<close> field, whatever its status: \<open>check_repo\<close> does not normalize,
  strip or rewrite it. Hence the URLs of the results of a batch are the URLs given to the
  batch, in completion order, and every dead link of the summary is one of them. In
  \<open>main\<close> the URLs given to the batch are not the lines of the file: they are the
  qualifying lines with \<open>strip()\<close> applied. So when \<open>main\<close> returns, the URLs of the
  results are the stripped lines in completion order, every dead link is a stripped line
  of the file, and the output ends with what the summary prints for these dead links.
\<close>

theorem results_keep_input_url:
  "(\<forall>r. fst (check_repo self net u) = Inr r \<longrightarrow> url r = u) \<and>
   (\<forall>results. completion_order order (length urls) \<and>
       fst (check_repos_batch self nets order urls cb st) = Inr results \<longrightarrow>
     map url results = map (\<lambda>i. urls ! i) order \<and>
     set (snd (summarize results [] [])) \<subseteq> set urls) \<and>
   (\<forall>argv open_file lines out.
       open_file (argv ! 1) = Inr lines \<and> completion_order order (length (read_urls lines)) \<and>
       main argv open_file nets order = (Inr (), out) \<longrightarrow>
     (\<exists>results printed status_counts dead_links.
        map url results = map (\<lambda>i. read_urls lines ! i) order \<and>
        summarize results [] [] = (status_counts, dead_links) \<and>
        set dead_links \<subseteq> strip ` set lines \<and>
        out = printed @ print_summary status_counts dead_links))"
proof (intro conjI allI impI)
  fix r assume "fst (check_repo self net u) = Inr r"
  then show "url r = u" using check_repo_Inr by blast
next
  fix results
  assume a: "completion_order order (length urls) \<and>
       fst (check_repos_batch self nets order urls cb st) = Inr results"
  then have o: "completion_order order (length urls)"
    and f: "fst (check_repos_batch self nets order urls cb st) = Inr results"
    by simp_all
  show m: "map url results = map (\<lambda>i. urls ! i) order"
    using o f by (rule batch_urls)
  have "set (map url results) \<subseteq> set urls"
    using o by (auto simp: m completion_order_def)
  then show "set (snd (summarize results [] [])) \<subseteq> set urls"
    by (auto simp: summarize_dead_links)
next
  fix argv :: "string list" and open_file :: "string \<Rightarrow> exn + string list"
    and lines :: "string list" and out :: "string list"
  assume a: "open_file (argv ! 1) = Inr lines \<and> completion_order order (length (read_urls lines)) \<and>
       main argv open_file nets order = (Inr (), out)"
  then have o: "completion_order order (length (read_urls lines))" by simp
  from a main_returns [of argv open_file nets order out]
  obtain token results printed status_counts dead_links where
    f: "fst (check_repos_batch (init token 10) nets order (read_urls lines) (Some progress_callback)
        [''Found '' @ str_nat (length (read_urls lines)) @ '' GitHub URLs to check...'']) =
       Inr results"
    and s: "summarize results [] [] = (status_counts, dead_links)"
    and p: "out = printed @ print_summary status_counts dead_links"
    by auto
  have m: "map url results = map (\<lambda>i. read_urls lines ! i) order"
    using o f by (rule batch_urls)
  have "set (map url results) \<subseteq> set (read_urls lines)"
    using o by (auto simp: m completion_order_def)
  moreover have "dead_links = snd (summarize results [] [])" using s by simp
  ultimately have "set dead_links \<subseteq> set (read_urls lines)"
    by (auto simp: summarize_dead_links)
  moreover have "set (read_urls lines) \<subseteq> strip ` set lines"
    by (auto simp: read_urls_def)
  ultimately have "set dead_links \<subseteq> strip ` set lines" by blast
  with m s p show "\<exists>results printed status_counts dead_links.
        map url results = map (\<lambda>i. read_urls lines ! i) order \<and>
        summarize results [] [] = (status_counts, dead_links) \<and>
        set dead_links \<subseteq> strip ` set lines \<and>
        out = printed @ print_summary status_counts dead_links"
    by blast
qed

text \<open>The theorem at the three example URLs.\<close>

theorem results_keep_input_url_witness:
  "map url (projr (fst (check_repos_batch (init None 10) net_example [2, 0, 1] urls_example
      (Some progress_callback) []))) =
     [''not-a-url'', ''github.com/golang/go'', ''github.com/doesnotexist404xyz/repo'']"
proof -
  have o: "completion_order [2, 0, 1] (length urls_example)" by code_simp
  obtain results where r: "fst (check_repos_batch (init None 10) net_example [2, 0, 1]
      urls_example (Some progress_callback) []) = Inr results"
    using batch_example by blast
  with o results_keep_input_url [where order = "[2, 0, 1]" and urls = urls_example
      and self = "init None 10" and nets = net_example and cb = "Some progress_callback"
      and st = "[]"]
  have "map url results = map (\<lambda>i. urls_example ! i) [2, 0, 1]" by blast
  then have "map url results =
      [''not-a-url'', ''github.com/golang/go'', ''github.com/doesnotexist404xyz/repo'']"
    by (simp add: urls_example_def)
  moreover have "projr (fst (check_repos_batch (init None 10) net_example [2, 0, 1] urls_example
      (Some progress_callback) [])) = results"
    by (simp only: r sum.sel)
  ultimately show ?thesis by (simp only:)
qed

text \<open>
  C10 as stated fails for the lines of the input file: for a file whose only line is
  \<open>https://github.com/doesnotexist404xyz/repo\<close> with a space before it and the line end
  after it, the URL that \<open>main\<close> gives to the batch and prints in the list of dead links
  (after the two spaces that \<open>print\<close> puts before each) has neither the space nor the
  line end.
\<close>

theorem main_prints_stripped_lines:
  "read_urls ['' https://github.com/doesnotexist404xyz/repo'' @ [CHR 0x0A]] =
     [''https://github.com/doesnotexist404xyz/repo''] \<and>
   main [''github_checker.py'', ''urls.txt'']
       (\<lambda>f. Inr ['' https://github.com/doesnotexist404xyz/repo'' @ [CHR 0x0A]]) net_example [0] =
     (Inr (),
      [''Found 1 GitHub URLs to check...'',
       ''[1/1] '' @ ballot_x @ '' doesnotexist404xyz/repo - Repository not found'',
       [CHR 0x0A] @ replicate 50 CHR ''='', ''SUMMARY'', replicate 50 CHR ''='',
       ''NOT_FOUND: 1'',
       [CHR 0x0A] @ ''Dead/Problematic Links (1):'',
       ''  https://github.com/doesnotexist404xyz/repo''])"
  by code_simp

end
